theory Spec2Isabelle
  imports Complex_Main "HOL-Library.Word"
begin

unbundle bit_operations_syntax

section \<open>Buffers\<close>

text \<open>
  A Node.js \<open>Buffer\<close> is a sequence of bytes.  Indexing a buffer out of range yields
  \<open>undefined\<close>, an assignment out of range is ignored (as \<open>list_update\<close> does), and the
  \<open>readUInt...\<close> accessors raise a \<open>RangeError\<close> out of range.
\<close>

type_synonym byte = "8 word"
type_synonym buffer = "byte list"

text \<open>\<open>Buffer.allocUnsafe(n)\<close>: the new buffer holds whatever the memory pool held.\<close>

definition allocUnsafe :: "(nat \<Rightarrow> byte) \<Rightarrow> nat \<Rightarrow> buffer" where
  "allocUnsafe pool n = map pool [0..<n]"

text \<open>\<open>buf.fill(v)\<close>.\<close>

definition fill :: "buffer \<Rightarrow> byte \<Rightarrow> buffer" where
  "fill buf v = map (\<lambda>_. v) buf"

text \<open>\<open>Buffer.alloc(n)\<close>: zero-filled.\<close>

definition alloc :: "nat \<Rightarrow> buffer" where
  "alloc n = replicate n 0"

section \<open>SLIP codec (lib/slip.js)\<close>

definition END :: byte where "END = 0xC0"
definition ESC :: byte where "ESC = 0xDB"
definition ESC_END :: byte where "ESC_END = 0xDC"
definition ESC_ESC :: byte where "ESC_ESC = 0xDD"

datatype slip_error =
  InvalidSlipFrame     \<comment> \<open>\<open>invalid slip frame\<close>\<close>
| InvalidEND           \<comment> \<open>\<open>invalid END in slip frame\<close>\<close>
| InvalidESC           \<comment> \<open>\<open>invalid ESC in slip frame\<close>\<close>

text \<open>
  The loop of \<open>decode\<close>, lines 99-119.  The state is the input buffer \<open>buf\<close> (the loop
  assigns to it), the output buffer \<open>out\<close>, and the indices \<open>i\<close> and \<open>o\<close> (here \<open>j\<close>).  In the two
  escape cases the source assigns to \<open>buf[o]\<close>, in the default case to \<open>out[o]\<close>.
  The result is \<open>out\<close> and \<open>o\<close>, together with the input buffer as the loop
  left it.
\<close>

function decode_loop :: "buffer \<Rightarrow> buffer \<Rightarrow> nat \<Rightarrow> nat \<Rightarrow> slip_error + (buffer \<times> nat \<times> buffer)" where
  "decode_loop buf out i j =
     (if i < length buf - 1 then
        (if buf ! i = END then Inl InvalidEND
         else if buf ! i = ESC then
           (if buf ! (i + 1) = ESC_END then decode_loop (buf[j := END]) out (i + 2) (j + 1)
            else if buf ! (i + 1) = ESC_ESC then decode_loop (buf[j := ESC]) out (i + 2) (j + 1)
            else Inl InvalidESC)
         else decode_loop buf (out[j := buf ! i]) (i + 1) (j + 1))
      else Inr (out, j, buf))"
  by pat_completeness auto
termination
  by (relation "measure (\<lambda>(buf, out, i, j). length buf - i)") auto

declare decode_loop.simps [simp del]

text \<open>
  \<open>decode\<close>, lines 89-121.  The first argument is the content of the memory that
  \<open>Buffer.allocUnsafe\<close> hands out.  The result is \<open>out.subarray(0, o)\<close>.
\<close>

definition decode :: "(nat \<Rightarrow> byte) \<Rightarrow> buffer \<Rightarrow> slip_error + buffer" where
  "decode pool buf =
     (let len = length buf in
      if len < 2 \<or> buf ! 0 \<noteq> END \<or> buf ! (len - 1) \<noteq> END then Inl InvalidSlipFrame
      else
        (case decode_loop buf (allocUnsafe pool (len - 2)) 1 0 of
           Inl e \<Rightarrow> Inl e
         | Inr (out, j, buf') \<Rightarrow> Inr (take j out)))"

text \<open>The loop of \<open>encode\<close>, lines 136-150; the result is \<open>out\<close> and \<open>o\<close> (here \<open>j\<close>).\<close>

function encode_loop :: "buffer \<Rightarrow> buffer \<Rightarrow> nat \<Rightarrow> nat \<Rightarrow> buffer \<times> nat" where
  "encode_loop buf out i j =
     (if i < length buf then
        (if buf ! i = END then encode_loop buf (out[j := ESC, j + 1 := ESC_END]) (i + 1) (j + 2)
         else if buf ! i = ESC then encode_loop buf (out[j := ESC, j + 1 := ESC_ESC]) (i + 1) (j + 2)
         else encode_loop buf (out[j := buf ! i]) (i + 1) (j + 1))
      else (out, j))"
  by pat_completeness auto
termination
  by (relation "measure (\<lambda>(buf, out, i, j). length buf - i)") auto

declare encode_loop.simps [simp del]

text \<open>\<open>encode\<close>, lines 128-153.\<close>

definition encode :: "buffer \<Rightarrow> buffer" where
  "encode buf =
     (let len = length buf;
          out = (alloc (len * 2 + 2))[0 := END];
          (out, j) = encode_loop buf out 0 1
      in take (j + 1) (out[j := END]))"

text \<open>The byte stuffing that \<open>encode\<close> computes, as a list function.\<close>

fun stuff :: "buffer \<Rightarrow> buffer" where
  "stuff [] = []"
| "stuff (b # bs) =
     (if b = END then [ESC, ESC_END] else if b = ESC then [ESC, ESC_ESC] else [b]) @ stuff bs"

text \<open>
  What \<open>decode\<close> returns for the encoding of \<open>bs\<close>, when \<open>mem\<close> is the content of the
  output buffer before the loop and \<open>k\<close> the output index: a byte that was escaped is
  never written to \<open>out\<close>, so the output keeps the byte the memory held there.
\<close>

fun decoded_as :: "(nat \<Rightarrow> byte) \<Rightarrow> nat \<Rightarrow> buffer \<Rightarrow> buffer" where
  "decoded_as mem k [] = []"
| "decoded_as mem k (b # bs) =
     (if b = END \<or> b = ESC then mem k else b) # decoded_as mem (k + 1) bs"

section \<open>JavaScript values\<close>

text \<open>
  The values that parameters, payloads and results hold.  Numbers are restricted to
  integers (every number the modelled code reads from or writes to a buffer is one);
  \<open>NaN\<close> is the result of arithmetic on a value that is not a number.  A string is a
  list of code units below 256; an object is its list of properties in insertion order.
\<close>

datatype js = Undefined | NaN | Num int | Str string | Arr "js list" | Obj "(string \<times> js) list"

datatype js_error =
  RangeError             \<comment> \<open>a buffer access out of range\<close>
| TypeError              \<comment> \<open>a property access on \<open>undefined\<close>, or a value of the wrong type\<close>
| SyntaxError string
| UserInputError string
| Error string

text \<open>
  The errors of Node and of the library hb-lib-tools (which is not part of the
  repository) are modelled by their kind, without their messages.  A check of the
  library's \<open>OptionParser\<close> that is given \<open>userInput = true\<close> throws a \<open>UserInputError\<close> in
  place of its \<open>TypeError\<close> or \<open>RangeError\<close>; its message is left empty here.
\<close>

definition option_error :: "bool \<Rightarrow> js_error \<Rightarrow> js_error" where
  "option_error userInput e = (if userInput then UserInputError [] else e)"

type_synonym 'a result = "js_error + 'a"

definition rbind :: "'a result \<Rightarrow> ('a \<Rightarrow> 'b result) \<Rightarrow> 'b result" where
  "rbind r f = (case r of Inl e \<Rightarrow> Inl e | Inr x \<Rightarrow> f x)"

text \<open>Property access \<open>obj.name\<close>, assignment \<open>obj.name = v\<close> and \<open>delete obj.name\<close>.\<close>

definition get_prop :: "js \<Rightarrow> string \<Rightarrow> js" where
  "get_prop v name = (case v of Obj ps \<Rightarrow> (case map_of ps name of Some x \<Rightarrow> x | None \<Rightarrow> Undefined)
                      | _ \<Rightarrow> Undefined)"

definition set_prop :: "js \<Rightarrow> string \<Rightarrow> js \<Rightarrow> js" where
  "set_prop v name x =
     (case v of
        Obj ps \<Rightarrow> Obj (if name \<in> fst ` set ps then map (\<lambda>(k, y). if k = name then (k, x) else (k, y)) ps
                        else ps @ [(name, x)])
      | _ \<Rightarrow> v)"

definition delete_prop :: "js \<Rightarrow> string \<Rightarrow> js" where
  "delete_prop v name = (case v of Obj ps \<Rightarrow> Obj (filter (\<lambda>(k, y). k \<noteq> name) ps) | _ \<Rightarrow> v)"

text \<open>Decimal and hexadecimal rendering of numbers.\<close>

definition digit_char :: "nat \<Rightarrow> char" where
  "digit_char d = (if d < 10 then char_of (48 + d) else char_of (55 + d))"

function digits :: "nat \<Rightarrow> nat \<Rightarrow> string" where
  "digits base n = (if base < 2 \<or> n < base then [digit_char n]
                    else digits base (n div base) @ [digit_char (n mod base)])"
  by pat_completeness auto
termination
  by (relation "measure (\<lambda>(base, n). n)") auto

declare digits.simps [simp del]

text \<open>\<open>String(n)\<close> for an integer \<open>n\<close>.\<close>

definition num_toString :: "int \<Rightarrow> string" where
  "num_toString n = (if n < 0 then CHR ''-'' # digits 10 (nat (- n)) else digits 10 (nat n))"

text \<open>
  \<open>toHexString(n, length)\<close> of the library hb-lib-tools, which is not part of the
  repository: the upper-case hexadecimal digits of \<open>n\<close>, padded with zeros on the left
  to \<open>length\<close> digits.
\<close>

definition toHexString :: "nat \<Rightarrow> nat \<Rightarrow> string" where
  "toHexString n len = (let ds = digits 16 n in replicate (len - length ds) CHR ''0'' @ ds)"

text \<open>\<open>Array.prototype.join\<close> on an array of strings.\<close>

fun join :: "string \<Rightarrow> string list \<Rightarrow> string" where
  "join sep [] = []"
| "join sep [x] = x"
| "join sep (x # y # ys) = x @ sep @ join sep (y # ys)"

text \<open>
  The conversion to a number that \<open>*\<close> and \<open>+value\<close> apply to their operand.  The numbers
  of the model are integers.  Of the strings, a decimal numeral is converted to its
  number and the empty string to 0; every other string gives \<open>NaN\<close> here (JavaScript
  also reads white space, a sign, a fraction, an exponent and the prefixes \<open>0x\<close>, \<open>0o\<close>,
  \<open>0b\<close>, which the model leaves out, as it leaves out the conversion of arrays and
  objects).
\<close>

definition is_digit :: "char \<Rightarrow> bool" where
  "is_digit c = (48 \<le> (of_char c :: nat) \<and> (of_char c :: nat) \<le> 57)"

definition decimal :: "string \<Rightarrow> nat" where
  "decimal str = foldl (\<lambda>n c. 10 * n + ((of_char c :: nat) - 48)) 0 str"

definition ToNumber :: "js \<Rightarrow> js" where
  "ToNumber v =
     (case v of
        Num n \<Rightarrow> Num n
      | Str str \<Rightarrow> if list_all is_digit str then Num (int (decimal str)) else NaN
      | _ \<Rightarrow> NaN)"

text \<open>
  \<open>OptionParser.toNumber(name, value, min, max, userInput)\<close> of the library hb-lib-tools:
  it is taken to accept a number and a string that is a decimal numeral, and to throw
  for any other value.  A number outside the bounds is not rejected: the library
  returns the nearest bound, and the callers in lib/VeluxApi.js do not use the value
  returned.
\<close>

definition OptionParser_toNumber :: "js \<Rightarrow> bool \<Rightarrow> unit result" where
  "OptionParser_toNumber v userInput =
     (case v of
        Num n \<Rightarrow> Inr ()
      | Str str \<Rightarrow> if str \<noteq> [] \<and> list_all is_digit str then Inr ()
                   else Inl (option_error userInput TypeError)
      | _ \<Rightarrow> Inl (option_error userInput TypeError))"

section \<open>Buffer accessors\<close>

definition readUInt8 :: "buffer \<Rightarrow> nat \<Rightarrow> nat result" where
  "readUInt8 data off = (if off < length data then Inr (unat (data ! off)) else Inl RangeError)"

definition readUInt16BE :: "buffer \<Rightarrow> nat \<Rightarrow> nat result" where
  "readUInt16BE data off =
     (if off + 1 < length data then Inr (unat (data ! off) * 256 + unat (data ! (off + 1)))
      else Inl RangeError)"

text \<open>\<open>buf.subarray(start, -1)\<close>: from \<open>start\<close> up to, and without, the last byte.\<close>

definition subarray_to_last :: "buffer \<Rightarrow> nat \<Rightarrow> buffer" where
  "subarray_to_last buf start = drop start (take (length buf - 1) buf)"

text \<open>\<open>checkData\<close> (lib/VeluxApi.js, lines 11-18).\<close>

definition checkData :: "buffer \<Rightarrow> nat \<Rightarrow> unit result" where
  "checkData data len =
     (if length data \<noteq> len
      then Inl (Error (num_toString (int (length data)) @ '': invalid data length (expected ''
                        @ num_toString (int len) @ '')''))
      else Inr ())"

text \<open>
  \<open>buf.write(string, offset)\<close>: the UTF-8 encoding of the string is stored from \<open>offset\<close>
  on; a character that does not fit completely is not written, nor is any after it.
\<close>

definition utf8 :: "char \<Rightarrow> buffer" where
  "utf8 c = (let n = (of_char c :: nat) in
             if n < 128 then [of_nat n]
             else [0xC0 OR of_nat (n div 64), 0x80 OR of_nat (n mod 64)])"

fun write_bytes :: "buffer \<Rightarrow> nat \<Rightarrow> buffer \<Rightarrow> buffer" where
  "write_bytes buf off [] = buf"
| "write_bytes buf off (b # bs) = write_bytes (buf[off := b]) (off + 1) bs"

fun buffer_write :: "buffer \<Rightarrow> string \<Rightarrow> nat \<Rightarrow> buffer" where
  "buffer_write buf [] off = buf"
| "buffer_write buf (c # cs) off =
     (if off + length (utf8 c) \<le> length buf
      then buffer_write (write_bytes buf off (utf8 c)) cs (off + length (utf8 c))
      else buf)"

text \<open>
  \<open>buf.writeUInt8(value, offset)\<close> and \<open>buf.writeUInt16BE(value, offset)\<close>: the value
  is converted to a number; a \<open>RangeError\<close> for an offset outside the buffer or a number
  outside the range; \<open>NaN\<close> is stored as 0.
\<close>

definition writeUInt8 :: "buffer \<Rightarrow> js \<Rightarrow> nat \<Rightarrow> buffer result" where
  "writeUInt8 buf v off =
     (if length buf < off + 1 then Inl RangeError
      else case ToNumber v of
        Num n \<Rightarrow> if n < 0 \<or> 255 < n then Inl RangeError else Inr (buf[off := of_int n])
      | _ \<Rightarrow> Inr (buf[off := 0]))"

definition writeUInt16BE :: "buffer \<Rightarrow> js \<Rightarrow> nat \<Rightarrow> buffer result" where
  "writeUInt16BE buf v off =
     (if length buf < off + 2 then Inl RangeError
      else case ToNumber v of
        Num n \<Rightarrow> if n < 0 \<or> 65535 < n then Inl RangeError
                 else Inr (buf[off := of_int (n div 256), off + 1 := of_int n])
      | _ \<Rightarrow> Inr (buf[off := 0, off + 1 := 0]))"

section \<open>Wire frames (lib/VeluxClient.js)\<close>

text \<open>The checksum loops of \<open>request\<close> (lines 358-361) and \<open>#receive\<close> (lines 409-412).\<close>

definition xor_bytes :: "buffer \<Rightarrow> byte" where
  "xor_bytes buf = foldl (XOR) 0 buf"

text \<open>
  The frame that \<open>request\<close> builds from the command id and the request data, lines
  352-362.  \<open>data\<close> is \<open>None\<close> for a request without data.  The checksum is taken over
  the whole buffer, whose last byte is still zero, and stored in the last byte.
\<close>

definition frame :: "nat \<Rightarrow> buffer option \<Rightarrow> buffer" where
  "frame cmd data =
     (let len = (case data of None \<Rightarrow> 0 | Some d \<Rightarrow> length d);
          buf = alloc (len + 5);
          buf = buf[0 := 0];
          buf = buf[1 := of_nat (len + 3)];
          buf = buf[2 := of_nat (cmd div 256), 3 := of_nat cmd];
          buf = (case data of None \<Rightarrow> buf | Some d \<Rightarrow> write_bytes buf 4 d);
          checksum = xor_bytes buf
      in buf[len + 4 := checksum])"

section \<open>Codec helpers (lib/VeluxApi.js)\<close>

text \<open>
  \<open>Math.round(a / b)\<close> for integers \<open>a\<close> and \<open>b > 0\<close>: the quotient rounded to the
  nearest integer, a half upwards.
\<close>

definition Math_round_div :: "int \<Rightarrow> int \<Rightarrow> int" where
  "Math_round_div a b = (2 * a + b) div (2 * b)"

text \<open>\<open>decodePosition\<close>, lines 158-171; the argument is a 16-bit number read from a buffer.\<close>

definition decodePosition :: "nat \<Rightarrow> js" where
  "decodePosition position =
     (if position = 0xD100 then Str ''target''
      else if position = 0xD200 then Str ''current''
      else if position = 0xD300 then Str ''default''
      else if position = 0xD400 then Str ''ignore''
      else if position = 0xF7FF then Str ''unknown''
      else if position \<le> 0xC800 then Num (Math_round_div (int position) 0x0200)
      else Str (''relative '' @ num_toString (Math_round_div (int position - 0xC800) 10 - 100)))"

text \<open>
  \<open>encodePosition\<close>, lines 173-182.  In the default case the source multiplies the
  argument by \<open>0x0200\<close>, which converts the argument to a number; the product with
  \<open>NaN\<close> is \<open>NaN\<close>.
\<close>

definition encodePosition :: "js \<Rightarrow> js" where
  "encodePosition position =
     (if position = Str ''target'' then Num 0xD100
      else if position = Str ''current'' then Num 0xD200
      else if position = Str ''default'' then Num 0xD300
      else if position = Str ''ignore'' then Num 0xD400
      else case ToNumber position of Num p \<Rightarrow> Num (p * 0x0200) | _ \<Rightarrow> NaN)"

text \<open>\<open>decodePowerState\<close>, lines 184-192.\<close>

definition decodePowerState :: "nat \<Rightarrow> js" where
  "decodePowerState powerState =
     (let b = (of_nat powerState :: byte) in
      Obj [(''powerSaveMode'', Num (uint (b AND 0x03))),
           (''ioMembership'', Num (uint (drop_bit 2 (b AND 0x04)))),
           (''rfSupport'', Num (uint (drop_bit 3 (b AND 0x08)))),
           (''turnaroundTime'', Num (uint (drop_bit 6 (b AND 0xC0))))])"

text \<open>\<open>decodeManufacturerId\<close>, lines 100-115.\<close>

definition decodeManufacturerId :: "nat \<Rightarrow> js" where
  "decodeManufacturerId manufacturerId =
     (case map_of
        [(1, ''VELUX''), (2, ''Somfy''), (3, ''Honeywell''),
         (4, ''H'' @ [CHR 0xF6] @ ''rmann''), (5, ''ASSA ABLOY''), (6, ''Niko''),
         (7, ''WINDOW MASTER''), (8, ''Renson''), (9, ''CIAT''), (10, ''Secuyou''),
         (11, ''OVERKIZ''), (12, ''Atlantic Group'')] manufacturerId of
        Some name \<Rightarrow> Str name
      | None \<Rightarrow> Str (''0x'' @ toHexString manufacturerId 2))"

text \<open>\<open>decodeActuatorType\<close>, lines 20-53.\<close>

definition decodeActuatorType :: "nat \<Rightarrow> js" where
  "decodeActuatorType actuatorType =
     (case map_of
        [(0x0040, ''Interior Venetian Blind''), (0x0080, ''Roller Shutter''),
         (0x0081, ''Roller Shutter with Adjustable Slats''),
         (0x0082, ''Roller Shutter with Projection''), (0x00C0, ''Vertical Exterior Awning''),
         (0x0100, ''Window Opener''), (0x0101, ''Window Opener with Rain Sensor''),
         (0x0140, ''Garage Door Opener''), (0x017A, ''Garage Door Opener''),
         (0x0180, ''Light''), (0x01BA, ''On/Off Light''), (0x01C0, ''Gate Opener''),
         (0x01FA, ''Gate Opener''), (0x0240, ''Door Lock''), (0x0241, ''Window Lock''),
         (0x0280, ''Vertical Interior Blinds''), (0x0340, ''Dual Roller Shutter''),
         (0x03C0, ''On/Off Switch''), (0x0400, ''Horizontal Awning''),
         (0x0440, ''Exterior Venetian Blind''), (0x0480, ''Louver Blind''),
         (0x04C0, ''Curtain Track''), (0x0500, ''Ventilation Point''), (0x0501, ''Air Inlet''),
         (0x0502, ''Air Transfer''), (0x0503, ''Air Outlet''), (0x0540, ''Exterior Heating''),
         (0x057A, ''Exterior Heating''), (0x0600, ''Swinging Shutters''),
         (0x0601, ''Swinging Shutter'')] actuatorType of
        Some name \<Rightarrow> Str name
      | None \<Rightarrow> Str (''0x'' @ toHexString actuatorType 4))"

section \<open>Requests and sessions (lib/VeluxClient.js)\<close>

text \<open>\<open>VeluxRequest\<close>, lines 77-99.\<close>

record request =
  r_id :: nat
  r_cmd :: nat
  r_cmdName :: string
  r_params :: js
  r_data :: "buffer option"

text \<open>
  The outcome of a promise \<open>once(session, name)\<close>: resolved with the argument of the
  event, or rejected with the error of an \<open>error\<close> event.
\<close>

datatype awaited = Resolved js | Rejected js_error

text \<open>
  \<open>VeluxSession\<close>, lines 148-170.  Of the command the session uses the flag \<open>ntf\<close> only.
  \<open>s_once_cfm\<close> is the listener that the constructor registers with \<open>once('cfm')\<close>; while
  it is registered the confirmation timer is running.  \<open>s_done_timer\<close> is the listener
  and timer of \<open>waitForDone\<close>.  \<open>s_awaiting\<close> is the event for which \<open>request\<close> has a
  pending \<open>once(session, name)\<close>, and \<open>s_settled\<close> the outcome of that promise once it
  is settled.
\<close>

record session =
  s_ntf :: bool
  s_request :: request
  s_result :: js
  s_once_cfm :: bool
  s_done_timer :: bool
  s_awaiting :: "string option"
  s_settled :: "awaited option"

definition VeluxSession :: "bool \<Rightarrow> request \<Rightarrow> session" where
  "VeluxSession ntf req =
     \<lparr>s_ntf = ntf, s_request = req, s_result = Undefined, s_once_cfm = True,
      s_done_timer = False, s_awaiting = None, s_settled = None\<rparr>"

definition waitForDone :: "session \<Rightarrow> session" where
  "waitForDone s = s\<lparr>s_done_timer := True\<rparr>"

text \<open>\<open>once(session, name)\<close> of node:events, called by \<open>request\<close>.\<close>

definition once :: "session \<Rightarrow> string \<Rightarrow> session" where
  "once s name = s\<lparr>s_awaiting := Some name, s_settled := None\<rparr>"

datatype session_event = Cfm js | Done | Err js_error

text \<open>
  \<open>session.emit(...)\<close>.  The listeners run at once: the constructor's listener for
  \<open>cfm\<close> sets the result, the listener of \<open>waitForDone\<close> stops its timer, and a pending
  \<open>once\<close> is settled by its event or by \<open>error\<close>.  An \<open>error\<close> event without a listener is
  thrown by \<open>emit\<close>.
\<close>

definition session_emit :: "session \<Rightarrow> session_event \<Rightarrow> session result" where
  "session_emit s ev =
     (case ev of
        Cfm payload \<Rightarrow>
          (let s = (if s_once_cfm s
                    then s\<lparr>s_result := (if s_ntf s then Arr [] else payload), s_once_cfm := False\<rparr>
                    else s)
           in Inr (if s_awaiting s = Some ''cfm''
                   then s\<lparr>s_awaiting := None, s_settled := Some (Resolved payload)\<rparr> else s))
      | Done \<Rightarrow>
          (let s = s\<lparr>s_done_timer := False\<rparr>
           in Inr (if s_awaiting s = Some ''done''
                   then s\<lparr>s_awaiting := None, s_settled := Some (Resolved Undefined)\<rparr> else s))
      | Err e \<Rightarrow>
          (if s_awaiting s \<noteq> None
           then Inr (s\<lparr>s_awaiting := None, s_settled := Some (Rejected e)\<rparr>)
           else Inl e))"

text \<open>\<open>session.result.push(entry)\<close> where the session may be \<open>undefined\<close>.\<close>

definition session_result_push :: "session option \<Rightarrow> js \<Rightarrow> session option result" where
  "session_result_push session entry =
     (case session of
        None \<Rightarrow> Inl TypeError
      | Some s \<Rightarrow> (case s_result s of
                     Arr xs \<Rightarrow> Inr (Some (s\<lparr>s_result := Arr (xs @ [entry])\<rparr>))
                   | _ \<Rightarrow> Inl TypeError))"

text \<open>\<open>session.emit('done')\<close> in a decoder, where the session may be \<open>undefined\<close>.\<close>

definition session_emit_done :: "session option \<Rightarrow> session option result" where
  "session_emit_done session =
     (case session of
        None \<Rightarrow> Inl TypeError
      | Some s \<Rightarrow> (case session_emit s Done of Inl e \<Rightarrow> Inl e | Inr s' \<Rightarrow> Inr (Some s')))"

text \<open>
  A command of the registry (lib/VeluxApi.js, from line 262).  An encoder gets the
  parameters and the flag \<open>userInput\<close>, and returns the data together with the
  parameters as it left them.  A decoder gets the data and the session (or
  \<open>undefined\<close>), and returns the session as it left it together with the payload or
  the error it threw.
\<close>

record command =
  cmd_id :: nat
  cmd_req :: "nat option"
  cmd_ntf :: bool
  cmd_session :: bool
  cmd_encode :: "(js \<Rightarrow> bool \<Rightarrow> (js \<times> buffer) result) option"
  cmd_decode :: "(buffer \<Rightarrow> session option \<Rightarrow> session option \<times> js result) option"

text \<open>A decoder that does not use the session.\<close>

definition pure_decoder :: "(buffer \<Rightarrow> js result) \<Rightarrow> buffer \<Rightarrow> session option \<Rightarrow> session option \<times> js result" where
  "pure_decoder f data session = (session, f data)"

section \<open>The command registry (lib/VeluxApi.js)\<close>

text \<open>\<open>decodeStatus\<close>, lines 212-218, and \<open>decodeSessionStatus\<close>, lines 202-210.\<close>

definition decodeStatus :: "buffer \<Rightarrow> string \<Rightarrow> js result" where
  "decodeStatus data message =
     rbind (checkData data 1) (\<lambda>_.
     rbind (readUInt8 data 0) (\<lambda>status.
     if status \<noteq> 0 then Inl (Error message) else Inr Undefined))"

definition decodeSessionStatus :: "buffer \<Rightarrow> js result" where
  "decodeSessionStatus data =
     rbind (checkData data 3) (\<lambda>_.
     rbind (readUInt16BE data 0) (\<lambda>sessionId.
     rbind (readUInt8 data 2) (\<lambda>status.
     if status = 0 then Inl (Error ''request failed'')
     else Inr (Obj [(''sessionId'', Num (int sessionId))]))))"

text \<open>\<open>string.replace(/./g, '*')\<close>: the dot matches every character but a line terminator.\<close>

definition replace_dot_by_star :: "string \<Rightarrow> string" where
  "replace_dot_by_star str =
     map (\<lambda>c. if c = CHR 0x0A \<or> c = CHR 0x0D then c else CHR ''*'') str"

text \<open>
  The encoder of \<open>GW_PASSWORD_ENTER_REQ\<close>, lines 272-279.  The checks of
  \<open>OptionParser\<close> (library hb-lib-tools, not part of the repository) are taken to reject a
  \<open>params\<close> that is not an object and a password that is not a non-empty string, with
  a \<open>UserInputError\<close> when \<open>userInput\<close> is set.  The buffer is filled with zeros, so the
  memory that \<open>Buffer.allocUnsafe\<close> hands out does not matter.
\<close>

definition GW_PASSWORD_ENTER_REQ_encode :: "js \<Rightarrow> bool \<Rightarrow> (js \<times> buffer) result" where
  "GW_PASSWORD_ENTER_REQ_encode params userInput =
     (case params of
        Obj _ \<Rightarrow>
          (case get_prop params ''password'' of
             Str password \<Rightarrow>
               if password = [] then Inl (option_error userInput RangeError)
               else
                 (let data = fill (allocUnsafe (\<lambda>_. 0) 32) 0;
                      data = buffer_write data password 0;
                      params = set_prop params ''password'' (Str (replace_dot_by_star password))
                  in Inr (params, data))
           | _ \<Rightarrow> Inl (option_error userInput TypeError))
      | _ \<Rightarrow> Inl (option_error userInput TypeError))"

text \<open>The decoder of \<open>GW_PASSWORD_ENTER_CFM\<close>, lines 284-286.\<close>

definition GW_PASSWORD_ENTER_CFM_decode :: "buffer \<Rightarrow> js result" where
  "GW_PASSWORD_ENTER_CFM_decode data = decodeStatus data ''invalid password''"

text \<open>A loop that pushes \<open>data.readUInt8(i)\<close> for each \<open>i\<close> of a range.\<close>

fun readUInt8s :: "buffer \<Rightarrow> nat list \<Rightarrow> nat list result" where
  "readUInt8s data [] = Inr []"
| "readUInt8s data (i # is) =
     rbind (readUInt8 data i) (\<lambda>x. rbind (readUInt8s data is) (\<lambda>xs. Inr (x # xs)))"

text \<open>The decoder of \<open>GW_GET_VERSION_CFM\<close>, lines 335-348; its loop runs from 1 to 4.\<close>

definition GW_GET_VERSION_CFM_decode :: "buffer \<Rightarrow> js result" where
  "GW_GET_VERSION_CFM_decode data =
     rbind (checkData data 9) (\<lambda>_.
     rbind (readUInt8s data [1..<5]) (\<lambda>sw.
     rbind (readUInt8 data 6) (\<lambda>hardwareVersion.
     rbind (readUInt8 data 7) (\<lambda>productGroup.
     rbind (readUInt8 data 8) (\<lambda>productType.
     Inr (Obj [(''softwareVersion'', Str (join ''.'' (map (\<lambda>n. num_toString (int n)) sw))),
               (''hardwareVersion'', Num (int hardwareVersion)),
               (''productGroup'', Num (int productGroup)),
               (''productType'', Num (int productType))]))))))"

text \<open>
  The software version as the specification states it: bytes 0 to 5 of the confirmation
  as six components joined by dots.
\<close>

definition spec_softwareVersion :: "buffer \<Rightarrow> string" where
  "spec_softwareVersion data = join ''.'' (map (\<lambda>b. num_toString (uint b)) (take 6 data))"

text \<open>
  The object that the loop of the decoder of \<open>GW_CS_GET_SYSTEMTABLE_DATA_NTF\<close> builds for
  entry \<open>i\<close>, lines 517-534.  The actuator type is read at \<open>11 * 1 + 5\<close>.
\<close>

definition systemtable_entry :: "buffer \<Rightarrow> nat \<Rightarrow> js result" where
  "systemtable_entry data i =
     rbind (readUInt8 data (11 * i + 1)) (\<lambda>nodeId.
     rbind (readUInt16BE data (11 * 1 + 5)) (\<lambda>actuatorType.
     rbind (readUInt8 data (11 * i + 7)) (\<lambda>powerState.
     rbind (readUInt8 data (11 * i + 8)) (\<lambda>manufacturerId.
     (let entry = Obj [(''nodeId'', Num (int nodeId)),
                       (''actuatorType'', Num (int actuatorType)),
                       (''powerState'', decodePowerState powerState),
                       (''manufacturer'', decodeManufacturerId manufacturerId)]
      in Inr (set_prop entry ''model'' (decodeActuatorType actuatorType)))))))"

text \<open>
  The loop itself, lines 516-537: each entry is pushed to \<open>result\<close> and to
  \<open>session.result\<close>.  The session is returned as the loop left it, also when an
  iteration throws.
\<close>

function systemtable_loop :: "buffer \<Rightarrow> nat \<Rightarrow> nat \<Rightarrow> js list \<Rightarrow> session option \<Rightarrow> session option \<times> js list result" where
  "systemtable_loop data nEntries i result session =
     (if i < nEntries then
        (case systemtable_entry data i of
           Inl e \<Rightarrow> (session, Inl e)
         | Inr entry \<Rightarrow>
             (case session_result_push session entry of
                Inl e \<Rightarrow> (session, Inl e)
              | Inr session' \<Rightarrow> systemtable_loop data nEntries (i + 1) (result @ [entry]) session'))
      else (session, Inr result))"
  by pat_completeness auto
termination
  by (relation "measure (\<lambda>(data, nEntries, i, result, session). nEntries - i)") auto

declare systemtable_loop.simps [simp del]

text \<open>The decoder of \<open>GW_CS_GET_SYSTEMTABLE_DATA_NTF\<close>, lines 512-542.\<close>

definition GW_CS_GET_SYSTEMTABLE_DATA_NTF_decode :: "buffer \<Rightarrow> session option \<Rightarrow> session option \<times> js result" where
  "GW_CS_GET_SYSTEMTABLE_DATA_NTF_decode data session =
     (case readUInt8 data 0 of
        Inl e \<Rightarrow> (session, Inl e)
      | Inr nEntries \<Rightarrow>
          (case checkData data (2 + nEntries * 11) of
             Inl e \<Rightarrow> (session, Inl e)
           | Inr _ \<Rightarrow>
               (case systemtable_loop data nEntries 0 [] session of
                  (session, Inl e) \<Rightarrow> (session, Inl e)
                | (session, Inr result) \<Rightarrow>
                    (case readUInt8 data (nEntries * 11 + 1) of
                       Inl e \<Rightarrow> (session, Inl e)
                     | Inr remainingNEntries \<Rightarrow>
                         if remainingNEntries = 0 then
                           (case session_emit_done session of
                              Inl e \<Rightarrow> (session, Inl e)
                            | Inr session' \<Rightarrow> (session', Inr (Arr result)))
                         else (session, Inr (Arr result))))))"

text \<open>The decoder of \<open>GW_ERROR_NTF\<close>, lines 484-496.\<close>

definition GW_ERROR_NTF_decode :: "buffer \<Rightarrow> js result" where
  "GW_ERROR_NTF_decode data =
     rbind (checkData data 1) (\<lambda>_.
     rbind (readUInt8 data 0) (\<lambda>error.
     Inl (Error (case map_of [(0, ''generic error''), (1, ''invalid command''),
                              (2, ''invalid frame''), (7, ''busy - try again later''),
                              (8, ''invalid node''), (12, ''not authenticated'')] error of
                   Some message \<Rightarrow> message
                 | None \<Rightarrow> ''error '' @ num_toString (int error)))))"

text \<open>
  The encoder of \<open>GW_COMMAND_SEND_REQ\<close>, lines 915-937.  Of \<open>OptionParser\<close> (library
  hb-lib-tools, not part of the repository), \<open>toObject\<close> is taken to reject a value that is
  not an object; \<open>toArray\<close> to return an array as it is, an empty array for a missing
  value, and a one-element array for any other value.  The loop over the node ids is
  \<open>write_nodeIds\<close>: the source checks each node id with \<open>toNumber\<close>, drops the value that
  \<open>toNumber\<close> returns, and writes the node id as it is, so that a node id above 199 is
  written, and one above 255 is refused by \<open>writeUInt8\<close>.
\<close>

definition toArray :: "js \<Rightarrow> js list" where
  "toArray v = (case v of Undefined \<Rightarrow> [] | Arr xs \<Rightarrow> xs | _ \<Rightarrow> [v])"

fun write_nodeIds :: "buffer \<Rightarrow> js list \<Rightarrow> nat \<Rightarrow> bool \<Rightarrow> buffer result" where
  "write_nodeIds data [] i userInput = Inr data"
| "write_nodeIds data (nodeId # nodeIds) i userInput =
     rbind (OptionParser_toNumber nodeId userInput) (\<lambda>_.
     rbind (writeUInt8 data nodeId (42 + i)) (\<lambda>data.
     write_nodeIds data nodeIds (i + 1) userInput))"

definition GW_COMMAND_SEND_REQ_encode :: "js \<Rightarrow> bool \<Rightarrow> (js \<times> buffer) result" where
  "GW_COMMAND_SEND_REQ_encode params userInput =
     (case params of
        Obj _ \<Rightarrow>
          rbind (OptionParser_toNumber (get_prop params ''sessionId'') False) (\<lambda>_.
            (let nodeIds = toArray (get_prop params ''nodeIds'');
                 params = set_prop params ''nodeIds'' (Arr nodeIds);
                 data = fill (allocUnsafe (\<lambda>_. 0) 66) 0
             in rbind (writeUInt16BE data (get_prop params ''sessionId'') 0) (\<lambda>data.
                rbind (writeUInt8 data (Num 1) 2) (\<lambda>data.
                rbind (writeUInt8 data (Num 3) 3) (\<lambda>data.
                rbind (writeUInt16BE data (encodePosition (get_prop params ''position'')) 7) (\<lambda>data.
                rbind (writeUInt8 data (Num (int (length nodeIds))) 41) (\<lambda>data.
                rbind (write_nodeIds data nodeIds 0 userInput) (\<lambda>data.
                Inr (params, data)))))))))
      | _ \<Rightarrow> Inl (option_error userInput TypeError))"

text \<open>The decoder of \<open>GW_SESSION_FINISHED_NTF\<close>, lines 976-979.\<close>

definition GW_SESSION_FINISHED_NTF_decode :: "buffer \<Rightarrow> js result" where
  "GW_SESSION_FINISHED_NTF_decode data =
     rbind (checkData data 2) (\<lambda>_.
     rbind (readUInt16BE data 0) (\<lambda>sessionId.
     Inr (Obj [(''sessionId'', Num (int sessionId))])))"

text \<open>
  The part of the registry \<open>commands\<close> that is modelled, in the order of the source.  A
  command without \<open>req\<close>, \<open>ntf\<close>, \<open>session\<close>, \<open>encode\<close> or \<open>decode\<close> in the source has
  \<open>None\<close> or \<open>False\<close> there.
\<close>

definition plain_command :: "nat \<Rightarrow> command" where
  "plain_command n =
     \<lparr>cmd_id = n, cmd_req = None, cmd_ntf = False, cmd_session = False,
      cmd_encode = None, cmd_decode = None\<rparr>"

definition GW_PASSWORD_ENTER_REQ :: command where
  "GW_PASSWORD_ENTER_REQ = (plain_command 0x3000)\<lparr>cmd_encode := Some GW_PASSWORD_ENTER_REQ_encode\<rparr>"

definition GW_PASSWORD_ENTER_CFM :: command where
  "GW_PASSWORD_ENTER_CFM =
     (plain_command 0x3001)\<lparr>cmd_req := Some 0x3000,
                             cmd_decode := Some (pure_decoder GW_PASSWORD_ENTER_CFM_decode)\<rparr>"

definition GW_GET_VERSION_REQ :: command where
  "GW_GET_VERSION_REQ = plain_command 0x0008"

definition GW_GET_VERSION_CFM :: command where
  "GW_GET_VERSION_CFM =
     (plain_command 0x0009)\<lparr>cmd_req := Some 0x0008,
                             cmd_decode := Some (pure_decoder GW_GET_VERSION_CFM_decode)\<rparr>"

definition GW_ERROR_NTF :: command where
  "GW_ERROR_NTF = (plain_command 0x0000)\<lparr>cmd_decode := Some (pure_decoder GW_ERROR_NTF_decode)\<rparr>"

definition GW_CS_GET_SYSTEMTABLE_DATA_REQ :: command where
  "GW_CS_GET_SYSTEMTABLE_DATA_REQ = (plain_command 0x0100)\<lparr>cmd_ntf := True\<rparr>"

definition GW_CS_GET_SYSTEMTABLE_DATA_CFM :: command where
  "GW_CS_GET_SYSTEMTABLE_DATA_CFM = (plain_command 0x0101)\<lparr>cmd_req := Some 0x0100\<rparr>"

definition GW_CS_GET_SYSTEMTABLE_DATA_NTF :: command where
  "GW_CS_GET_SYSTEMTABLE_DATA_NTF =
     (plain_command 0x0102)\<lparr>cmd_req := Some 0x0100,
                             cmd_decode := Some GW_CS_GET_SYSTEMTABLE_DATA_NTF_decode\<rparr>"

definition GW_COMMAND_SEND_REQ :: command where
  "GW_COMMAND_SEND_REQ =
     (plain_command 0x0300)\<lparr>cmd_ntf := True, cmd_session := True,
                             cmd_encode := Some GW_COMMAND_SEND_REQ_encode\<rparr>"

definition GW_COMMAND_SEND_CFM :: command where
  "GW_COMMAND_SEND_CFM = (plain_command 0x0301)\<lparr>cmd_decode := Some (pure_decoder decodeSessionStatus)\<rparr>"

definition GW_SESSION_FINISHED_NTF :: command where
  "GW_SESSION_FINISHED_NTF =
     (plain_command 0x0304)\<lparr>cmd_decode := Some (pure_decoder GW_SESSION_FINISHED_NTF_decode)\<rparr>"

definition GW_SET_LIMITATION_REQ :: command where
  "GW_SET_LIMITATION_REQ = (plain_command 0x0310)\<lparr>cmd_session := True\<rparr>"

definition GW_SET_LIMITATION_CFM :: command where
  "GW_SET_LIMITATION_CFM = (plain_command 0x0311)\<lparr>cmd_req := Some 0x0310\<rparr>"

definition commands :: "(string \<times> command) list" where
  "commands =
     [(''GW_PASSWORD_ENTER_REQ'', GW_PASSWORD_ENTER_REQ),
      (''GW_PASSWORD_ENTER_CFM'', GW_PASSWORD_ENTER_CFM),
      (''GW_GET_VERSION_REQ'', GW_GET_VERSION_REQ),
      (''GW_GET_VERSION_CFM'', GW_GET_VERSION_CFM),
      (''GW_ERROR_NTF'', GW_ERROR_NTF),
      (''GW_CS_GET_SYSTEMTABLE_DATA_REQ'', GW_CS_GET_SYSTEMTABLE_DATA_REQ),
      (''GW_CS_GET_SYSTEMTABLE_DATA_CFM'', GW_CS_GET_SYSTEMTABLE_DATA_CFM),
      (''GW_CS_GET_SYSTEMTABLE_DATA_NTF'', GW_CS_GET_SYSTEMTABLE_DATA_NTF),
      (''GW_COMMAND_SEND_REQ'', GW_COMMAND_SEND_REQ),
      (''GW_COMMAND_SEND_CFM'', GW_COMMAND_SEND_CFM),
      (''GW_SESSION_FINISHED_NTF'', GW_SESSION_FINISHED_NTF),
      (''GW_SET_LIMITATION_REQ'', GW_SET_LIMITATION_REQ),
      (''GW_SET_LIMITATION_CFM'', GW_SET_LIMITATION_CFM)]"

section \<open>The client (lib/VeluxClient.js)\<close>

text \<open>
  \<open>commandNameById\<close>, lines 43-47, for a registry \<open>cmds\<close>: a later command with the same
  id replaces an earlier one.  \<open>command_named\<close> is \<open>commands[cmdName]\<close>.
\<close>

definition commandNameById :: "(string \<times> command) list \<Rightarrow> nat \<Rightarrow> string option" where
  "commandNameById cmds = map_of (rev (map (\<lambda>(name, c). (cmd_id c, name)) cmds))"

definition command_named :: "(string \<times> command) list \<Rightarrow> string \<Rightarrow> command option" where
  "command_named cmds = map_of (rev cmds)"

definition endsWith :: "string \<Rightarrow> string \<Rightarrow> bool" where
  "endsWith str suffix =
     (length suffix \<le> length str \<and> drop (length str - length suffix) str = suffix)"

text \<open>\<open>String(v)\<close>, as string concatenation applies it.\<close>

fun js_toString :: "js \<Rightarrow> string" where
  "js_toString Undefined = ''undefined''"
| "js_toString NaN = ''NaN''"
| "js_toString (Num n) = num_toString n"
| "js_toString (Str str) = str"
| "js_toString (Arr xs) = join '','' (map js_toString xs)"
| "js_toString (Obj ps) = ''[object Object]''"

text \<open>
  The state of a \<open>VeluxClient\<close>: the counters, the session table (an object, so its keys
  are strings) and the flag \<open>_busy\<close>.
\<close>

record client =
  cl_requestId :: nat
  cl_sessionId :: nat
  cl_sessions :: "string \<rightharpoonup> session"
  cl_busy :: bool

text \<open>The state that the constructor sets, lines 208-210.\<close>

definition new_client :: client where
  "new_client = \<lparr>cl_requestId = 0, cl_sessionId = 0, cl_sessions = Map.empty, cl_busy = False\<rparr>"

text \<open>The texts of \<open>#emitError\<close>, with the values that they format.\<close>

datatype error_text =
  UnknownProtocol byte                  \<comment> \<open>\<open>%s: unknown protocol\<close>\<close>
| InvalidChecksum byte byte buffer      \<comment> \<open>\<open>%s: invalid checksum (expected: %s) for %s\<close>\<close>
| UnknownCommandID nat                  \<comment> \<open>\<open>%s: unknown command ID\<close>\<close>
| UnexpectedCommand string              \<comment> \<open>\<open>%s: unexpected command\<close>\<close>
| MessageOf js_error                    \<comment> \<open>\<open>error.message\<close>\<close>

text \<open>
  What the client emits and writes: the events \<open>request\<close>, \<open>send\<close>, \<open>response\<close>,
  \<open>notification\<close>, \<open>data\<close> and \<open>error\<close>, and the bytes written to the socket.
\<close>

datatype event =
  EvRequest request
| EvSend buffer
| EvWrite buffer
| EvResponse request js
| EvNotification nat string buffer js "request option"
| EvData buffer
| EvError error_text "request option"

text \<open>The result of a call of \<open>request\<close>, or \<open>Pending\<close> while it awaits a promise.\<close>

datatype outcome = Pending | Return js | Throw js_error

text \<open>
  \<open>params.sessionId = ...\<close>, line 317.  The module is in strict mode, where the
  assignment to a property of a value that is not an object throws (an array as
  \<open>params\<close> is outside the model).
\<close>

definition assign_sessionId :: "js \<Rightarrow> nat \<Rightarrow> js result" where
  "assign_sessionId params n =
     (case params of Obj _ \<Rightarrow> Inr (set_prop params ''sessionId'' (Num (int n))) | _ \<Rightarrow> Inl TypeError)"

text \<open>
  \<open>request\<close>, lines 302-328: the checks of the command, the session id, the encoder
  and the request record.  The counters are returned as the code left them, also when
  it throws.
\<close>

definition request_prepare :: "(string \<times> command) list \<Rightarrow> client \<Rightarrow> command \<Rightarrow> js \<Rightarrow> bool \<Rightarrow> client \<times> request result" where
  "request_prepare cmds cl command params userInput =
     (let cmd = cmd_id command in
      case commandNameById cmds cmd of
        None \<Rightarrow>
          (cl, Inl ((if userInput then UserInputError else SyntaxError)
                      (num_toString (int cmd) @ '': unknown command'')))
      | Some cmdName \<Rightarrow>
          if \<not> endsWith cmdName ''_REQ''
          then (cl, Inl ((if userInput then UserInputError else SyntaxError)
                           (cmdName @ '': not a request command'')))
          else
            (let cl = (if cmd_session command then cl\<lparr>cl_sessionId := cl_sessionId cl + 1\<rparr> else cl)
             in case (if cmd_session command
                      then assign_sessionId params (cl_sessionId cl mod 0xFFFF)
                      else Inr params) of
                  Inl e \<Rightarrow> (cl, Inl e)
                | Inr params \<Rightarrow>
                    (case (case cmd_encode command of
                             None \<Rightarrow> Inr (params, None)
                           | Some enc \<Rightarrow>
                               rbind (enc params userInput) (\<lambda>(params, data). Inr (params, Some data))) of
                       Inl e \<Rightarrow> (cl, Inl e)
                     | Inr (params, data) \<Rightarrow>
                         if (case data of None \<Rightarrow> False | Some d \<Rightarrow> 250 < length d)
                         then (cl, Inl (SyntaxError ''data: more than 250 bytes''))
                         else (cl\<lparr>cl_requestId := cl_requestId cl + 1\<rparr>,
                               Inr \<lparr>r_id = cl_requestId cl + 1, r_cmd = cmd, r_cmdName = cmdName,
                                    r_params = params, r_data = data\<rparr>))))"

text \<open>The session key, line 334.\<close>

definition sessionKey :: "request \<Rightarrow> string" where
  "sessionKey req =
     (case get_prop (r_params req) ''sessionId'' of
        Undefined \<Rightarrow> num_toString (int (r_cmd req))
      | sessionId \<Rightarrow> ''s'' @ js_toString sessionId)"

text \<open>
  A session object is reached through the table: \<open>update_session\<close> applies a change to
  the session under a key, if there is one.
\<close>

definition update_session :: "client \<Rightarrow> string \<Rightarrow> (session \<Rightarrow> session) \<Rightarrow> client" where
  "update_session cl key f =
     (case cl_sessions cl key of
        None \<Rightarrow> cl
      | Some s \<Rightarrow> cl\<lparr>cl_sessions := (cl_sessions cl)(key \<mapsto> f s)\<rparr>)"

text \<open>Lines 338-339, after the loop of line 335 has found the key free.\<close>

definition request_register :: "client \<Rightarrow> command \<Rightarrow> request \<Rightarrow> client" where
  "request_register cl command req =
     cl\<lparr>cl_sessions := (cl_sessions cl)(sessionKey req \<mapsto> VeluxSession (cmd_ntf command) req)\<rparr>"

text \<open>
  Lines 344-372, after the loop of line 341 has found \<open>_busy\<close> false: the flag is set,
  the frame is built, SLIP-encoded and written, and the call awaits the confirmation.
\<close>

definition request_send :: "client \<Rightarrow> request \<Rightarrow> client \<times> event list" where
  "request_send cl req =
     (let cl = cl\<lparr>cl_busy := True\<rparr>;
          buf = frame (r_cmd req) (r_data req)
      in (update_session cl (sessionKey req) (\<lambda>s. once s ''cfm''),
          [EvRequest req, EvSend buf, EvWrite (encode buf)]))"

text \<open>The outer \<open>catch\<close>, lines 391-396.\<close>

definition request_catch :: "request \<Rightarrow> js_error \<Rightarrow> event list \<times> outcome" where
  "request_catch req error =
     (if r_cmd req = cmd_id GW_PASSWORD_ENTER_REQ then ([], Throw error)
      else ([EvError (MessageOf error) (Some req)], Return Undefined))"

text \<open>Lines 383-390: the result is taken from the session, and the session is deleted.\<close>

definition request_finish :: "client \<Rightarrow> request \<Rightarrow> client \<times> event list \<times> outcome" where
  "request_finish cl req =
     (let result = (case cl_sessions cl (sessionKey req) of None \<Rightarrow> Undefined | Some s \<Rightarrow> s_result s);
          cl = cl\<lparr>cl_sessions := (cl_sessions cl)(sessionKey req := None)\<rparr>
      in (cl, [EvResponse req result], Return result))"

text \<open>
  The continuation of \<open>await once(session, 'cfm')\<close>, lines 371-382, for the outcome of
  the promise.
\<close>

definition request_cfm :: "client \<Rightarrow> command \<Rightarrow> request \<Rightarrow> awaited \<Rightarrow> client \<times> event list \<times> outcome" where
  "request_cfm cl command req a =
     (case a of
        Rejected error \<Rightarrow>
          (let cl = cl\<lparr>cl_busy := False\<rparr>;
               cl = cl\<lparr>cl_sessions := (cl_sessions cl)(sessionKey req := None)\<rparr>;
               (evs, out) = request_catch req error
           in (cl, evs, out))
      | Resolved _ \<Rightarrow>
          (let cl = cl\<lparr>cl_busy := False\<rparr>
           in if cmd_ntf command
              then (update_session cl (sessionKey req) (\<lambda>s. once (waitForDone s) ''done''), [], Pending)
              else request_finish cl req))"

text \<open>The continuation of \<open>await once(session, 'done')\<close>, lines 381-396.\<close>

definition request_done :: "client \<Rightarrow> request \<Rightarrow> awaited \<Rightarrow> client \<times> event list \<times> outcome" where
  "request_done cl req a =
     (case a of
        Rejected error \<Rightarrow> (let (evs, out) = request_catch req error in (cl, evs, out))
      | Resolved _ \<Rightarrow> request_finish cl req)"

text \<open>
  \<open>#receive\<close>, lines 399-467, in three parts.  The variable \<open>session\<close> of the source is
  followed by the key under which the table holds the session.  An exception that
  leaves \<open>#receive\<close> is returned together with the state and the events up to it.

  \<open>session?.emit(...)\<close>:
\<close>

definition emit_to :: "client \<Rightarrow> string option \<Rightarrow> session_event \<Rightarrow> client result" where
  "emit_to cl key ev =
     (case key of
        None \<Rightarrow> Inr cl
      | Some k \<Rightarrow>
          (case cl_sessions cl k of
             None \<Rightarrow> Inr cl
           | Some s \<Rightarrow> rbind (session_emit s ev) (\<lambda>s'. Inr (cl\<lparr>cl_sessions := (cl_sessions cl)(k \<mapsto> s')\<rparr>))))"

text \<open>
  Lines 430-441: the session of the request command, the decoder, and the \<open>catch\<close> that
  passes an error of the decoder to the session, or to \<open>#emitError\<close> without a session.
\<close>

definition receive_decode :: "client \<Rightarrow> command \<Rightarrow> buffer \<Rightarrow> client \<times> event list \<times> js result" where
  "receive_decode cl command data =
     (let key = map_option (\<lambda>req. num_toString (int req)) (cmd_req command);
          session = (case key of None \<Rightarrow> None | Some k \<Rightarrow> cl_sessions cl k)
      in case cmd_decode command of
           None \<Rightarrow> (cl, [], Inr Undefined)
         | Some dec \<Rightarrow>
             (let (session', r) = dec data session;
                  cl = (case (key, session') of
                          (Some k, Some s) \<Rightarrow> cl\<lparr>cl_sessions := (cl_sessions cl)(k \<mapsto> s)\<rparr>
                        | _ \<Rightarrow> cl)
              in case r of
                   Inr payload \<Rightarrow> (cl, [], Inr payload)
                 | Inl error \<Rightarrow>
                     (if session' \<noteq> None then
                        (case emit_to cl key (Err error) of
                           Inl e \<Rightarrow> (cl, [], Inl e)
                         | Inr cl \<Rightarrow> (cl, [], Inr Undefined))
                      else (cl, [EvError (MessageOf error) None], Inr Undefined))))"

text \<open>
  Lines 442-449: a payload with a session id selects the session of that id, and a
  payload with a node id is pushed to the result of that session.
\<close>

definition receive_session :: "client \<Rightarrow> string option \<Rightarrow> js \<Rightarrow> client \<times> string option \<times> js result" where
  "receive_session cl key payload =
     (case get_prop payload ''sessionId'' of
        Undefined \<Rightarrow> (cl, key, Inr payload)
      | sessionId \<Rightarrow>
          (let key = Some (''s'' @ js_toString sessionId) in
           if get_prop payload ''nodeId'' \<noteq> Undefined then
             (let payload = delete_prop (delete_prop payload ''sessionId'') ''status'' in
              case cl_sessions cl (''s'' @ js_toString sessionId) of
                None \<Rightarrow> (cl, key, Inr payload)
              | Some s \<Rightarrow>
                  (case session_result_push (Some s) payload of
                     Inl e \<Rightarrow> (cl, key, Inl e)
                   | Inr s' \<Rightarrow> (cl\<lparr>cl_sessions := (cl_sessions cl)(''s'' @ js_toString sessionId := s')\<rparr>,
                                key, Inr payload)))
           else (cl, key, Inr payload)))"

text \<open>Lines 451-466: the notification event, and the events \<open>cfm\<close> and \<open>done\<close> of the session.\<close>

definition receive_emit :: "client \<Rightarrow> nat \<Rightarrow> string \<Rightarrow> buffer \<Rightarrow> js \<Rightarrow> string option \<Rightarrow> client \<times> event list \<times> js_error option" where
  "receive_emit cl cmd cmdName data payload key =
     (let session = (case key of None \<Rightarrow> None | Some k \<Rightarrow> cl_sessions cl k);
          evs = [EvNotification cmd cmdName data payload (map_option s_request session)]
      in case (if endsWith cmdName ''_CFM'' then emit_to cl key (Cfm payload) else Inr cl) of
           Inl e \<Rightarrow> (cl, evs, Some e)
         | Inr cl \<Rightarrow>
             (case (if cmd = cmd_id GW_SESSION_FINISHED_NTF then emit_to cl key Done else Inr cl) of
                Inl e \<Rightarrow> (cl, evs, Some e)
              | Inr cl \<Rightarrow> (cl, evs, None)))"

text \<open>
  Lines 421-466, after the checks of the protocol and the checksum: the command id is
  read from bytes 2 and 3, the data is taken from byte 4 up to the last byte, and the
  command is looked up, decoded and dispatched.  For an unknown command id the source
  emits an error and then calls \<open>endsWith\<close> on \<open>undefined\<close>, which throws.
\<close>

definition receive_dispatch :: "(string \<times> command) list \<Rightarrow> client \<Rightarrow> buffer \<Rightarrow> client \<times> event list \<times> js_error option" where
  "receive_dispatch cmds cl buf =
     (case readUInt16BE buf 2 of
        Inl e \<Rightarrow> (cl, [], Some e)
      | Inr cmd \<Rightarrow>
          (let data = subarray_to_last buf 4 in
           case commandNameById cmds cmd of
             None \<Rightarrow> (cl, [EvError (UnknownCommandID cmd) None], Some TypeError)
           | Some cmdName \<Rightarrow>
               (let evs1 = (if \<not> endsWith cmdName ''_CFM'' \<and> \<not> endsWith cmdName ''_NTF''
                            then [EvError (UnexpectedCommand cmdName) None] else [])
                in case command_named cmds cmdName of
                     None \<Rightarrow> (cl, evs1, Some TypeError)
                   | Some command \<Rightarrow>
                       (case receive_decode cl command data of
                          (cl, evs2, Inl e) \<Rightarrow> (cl, evs1 @ evs2, Some e)
                        | (cl, evs2, Inr payload) \<Rightarrow>
                            (case receive_session cl (map_option (\<lambda>req. num_toString (int req)) (cmd_req command)) payload of
                               (cl, key, Inl e) \<Rightarrow> (cl, evs1 @ evs2, Some e)
                             | (cl, key, Inr payload) \<Rightarrow>
                                 (case receive_emit cl cmd cmdName data payload key of
                                    (cl, evs3, r) \<Rightarrow> (cl, evs1 @ evs2 @ evs3, r)))))))"

text \<open>
  \<open>#receive\<close>, lines 399-467.  After a checksum mismatch the source emits an error and
  goes on (its \<open>return\<close> is commented out).  For the empty buffer \<open>buf[0]\<close> is
  \<open>undefined\<close>, and \<open>toHexString\<close> throws a \<open>TypeError\<close> before the error is emitted.
\<close>

definition receive :: "(string \<times> command) list \<Rightarrow> client \<Rightarrow> buffer \<Rightarrow> client \<times> event list \<times> js_error option" where
  "receive cmds cl buf =
     (if buf = [] then (cl, [EvData buf], Some TypeError)
      else if buf ! 0 \<noteq> 0
      then (cl, [EvData buf, EvError (UnknownProtocol (buf ! 0)) None], None)
      else
        (let checksum = xor_bytes (take (length buf - 1) buf);
             evs0 = (if buf ! (length buf - 1) \<noteq> checksum
                     then [EvError (InvalidChecksum (buf ! (length buf - 1)) checksum buf) None]
                     else [])
         in case receive_dispatch cmds cl buf of
              (cl, evs, r) \<Rightarrow> (cl, EvData buf # evs0 @ evs, r)))"

section \<open>Scenarios\<close>

text \<open>
  The states and frames of two runs against a scripted gateway: a request of
  \<open>GW_GET_VERSION_REQ\<close> that has written its frame, and a request of
  \<open>GW_CS_GET_SYSTEMTABLE_DATA_REQ\<close> with its session (key \<open>256\<close>) in the states it goes
  through, a notification with two entries and one with one entry.
\<close>

definition version_request :: request where
  "version_request =
     \<lparr>r_id = 1, r_cmd = 0x0008, r_cmdName = ''GW_GET_VERSION_REQ'', r_params = Obj [], r_data = None\<rparr>"

definition version_client :: client where
  "version_client =
     fst (request_send (request_register (new_client\<lparr>cl_requestId := 1\<rparr>) GW_GET_VERSION_REQ version_request)
            version_request)"

definition version_payload :: js where
  "version_payload =
     Obj [(''softwareVersion'', Str ''2.0.0.71''), (''hardwareVersion'', Num 6),
          (''productGroup'', Num 14), (''productType'', Num 3)]"

definition systemtable_request :: request where
  "systemtable_request =
     \<lparr>r_id = 1, r_cmd = 0x0100, r_cmdName = ''GW_CS_GET_SYSTEMTABLE_DATA_REQ'', r_params = Obj [],
      r_data = None\<rparr>"

definition systemtable_session :: session where
  "systemtable_session = VeluxSession True systemtable_request"

definition client_with :: "session \<Rightarrow> bool \<Rightarrow> client" where
  "client_with s busy =
     \<lparr>cl_requestId = 1, cl_sessionId = 0, cl_sessions = [''256'' \<mapsto> s], cl_busy = busy\<rparr>"

definition systemtable_entry_5 :: js where
  "systemtable_entry_5 =
     Obj [(''nodeId'', Num 5), (''actuatorType'', Num 0x0101), (''powerState'', decodePowerState 0),
          (''manufacturer'', Str ''VELUX''), (''model'', Str ''Window Opener with Rain Sensor'')]"

definition systemtable_entry_6 :: js where
  "systemtable_entry_6 =
     Obj [(''nodeId'', Num 6), (''actuatorType'', Num 0x0101), (''powerState'', decodePowerState 0),
          (''manufacturer'', Str ''Somfy''), (''model'', Str ''Window Opener with Rain Sensor'')]"

definition systemtable_ntf_2 :: buffer where
  "systemtable_ntf_2 =
     [2,  5, 0xAA, 0xBB, 0xCC, 0x00, 0x40, 0x00, 0x01, 0, 0, 0,
          6, 0xAA, 0xBB, 0xCD, 0x01, 0x01, 0x00, 0x02, 0, 0, 0,  1]"

definition systemtable_ntf_1 :: buffer where
  "systemtable_ntf_1 = [1,  7, 0xAA, 0xBB, 0xCE, 0x00, 0x80, 0x00, 0x01, 0, 0, 0,  0]"

definition systemtable_collecting :: "js list \<Rightarrow> session" where
  "systemtable_collecting entries =
     systemtable_session\<lparr>s_result := Arr entries, s_once_cfm := False, s_done_timer := True,
                           s_awaiting := Some ''done''\<rparr>"

section \<open>Concurrent calls of request\<close>

text \<open>
  The calls of \<open>request\<close> run on one thread and give up control at their \<open>await\<close>s
  only.  A call is at one of these points: in the loop of line 335 (\<open>AtSlot\<close>), in the
  loop of line 341 (\<open>AtBusy\<close>), at \<open>await once(session, 'cfm')\<close> after it has written its
  frame (\<open>AwaitCfm\<close>), at \<open>await once(session, 'done')\<close> (\<open>AwaitDone\<close>), or it has returned
  or thrown (\<open>Finished\<close>).  The client is connected, so that \<open>await this.connect()\<close> of
  line 331 is not run, and the write of line 368 succeeds; the \<open>await\<close> of that line and
  the one of line 372 are one point of the call, at which the flag \<open>_busy\<close> is set.
\<close>

datatype pc = AtSlot | AtBusy | AwaitCfm | AwaitDone | Finished outcome

record caller =
  c_command :: command
  c_request :: request
  c_pc :: pc

text \<open>
  The log of the byte stream and of the calls: a call, with its session key, has
  written bytes; a call has completed with an outcome.  Calls are named by their
  request ids.
\<close>

datatype log_event = Wrote nat string buffer | Completed nat outcome

record system =
  sys_client :: client
  sys_callers :: "nat \<rightharpoonup> caller"
  sys_log :: "log_event list"

definition initial_system :: system where
  "initial_system = \<lparr>sys_client = new_client, sys_callers = Map.empty, sys_log = []\<rparr>"

text \<open>
  Lines 341-372, run from the loop of line 341: the call waits while \<open>_busy\<close> is set;
  otherwise it sets the flag, writes its frame and awaits the confirmation.
\<close>

definition advance_busy :: "client \<Rightarrow> request \<Rightarrow> client \<times> pc \<times> log_event list" where
  "advance_busy cl req =
     (if cl_busy cl then (cl, AtBusy, [])
      else (fst (request_send cl req), AwaitCfm,
            [Wrote (r_id req) (sessionKey req) (encode (frame (r_cmd req) (r_data req)))]))"

text \<open>
  Lines 334-372, run from the loop of line 335: the call waits while the table has a
  session under its key; otherwise it registers its session and goes on to line 341.
\<close>

definition advance_slot :: "client \<Rightarrow> command \<Rightarrow> request \<Rightarrow> client \<times> pc \<times> log_event list" where
  "advance_slot cl command req =
     (if cl_sessions cl (sessionKey req) \<noteq> None then (cl, AtSlot, [])
      else advance_busy (request_register cl command req) req)"

text \<open>The point a call is at after a continuation with the given outcome.\<close>

definition pc_after :: "pc \<Rightarrow> outcome \<Rightarrow> pc" where
  "pc_after waiting out = (case out of Pending \<Rightarrow> waiting | _ \<Rightarrow> Finished out)"

definition log_after :: "nat \<Rightarrow> outcome \<Rightarrow> log_event list" where
  "log_after i out = (case out of Pending \<Rightarrow> [] | _ \<Rightarrow> [Completed i out])"

text \<open>
  One step of the event loop, for a registry \<open>cmds\<close>:
  a call of \<open>request\<close>, which runs to its first wait (\<open>call\<close>) or throws (\<open>call_throws\<close>);
  the timer of a call that waits in one of the two loops (\<open>timer_slot\<close>, \<open>timer_busy\<close>);
  a frame from the gateway (\<open>frame\<close>);
  the confirmation timer or the stream timer of a session, whose \<open>error\<close> event has a
  listener (\<open>timeout_cfm\<close>, \<open>timeout_done\<close>);
  the continuation of a call whose promise is settled (\<open>resume_cfm\<close>, \<open>resume_done\<close>).
\<close>

inductive step :: "(string \<times> command) list \<Rightarrow> system \<Rightarrow> system \<Rightarrow> bool"
  for cmds :: "(string \<times> command) list"
  where
    call:
      "request_prepare cmds (sys_client s) command params userInput = (cl, Inr req) \<Longrightarrow>
       advance_slot cl command req = (cl', p, l) \<Longrightarrow>
       step cmds s
         (s\<lparr>sys_client := cl',
            sys_callers := (sys_callers s)(r_id req \<mapsto> \<lparr>c_command = command, c_request = req, c_pc = p\<rparr>),
            sys_log := sys_log s @ l\<rparr>)"
  | call_throws:
      "request_prepare cmds (sys_client s) command params userInput = (cl, Inl e) \<Longrightarrow>
       step cmds s (s\<lparr>sys_client := cl\<rparr>)"
  | timer_slot:
      "sys_callers s i = Some c \<Longrightarrow> c_pc c = AtSlot \<Longrightarrow>
       advance_slot (sys_client s) (c_command c) (c_request c) = (cl', p, l) \<Longrightarrow>
       step cmds s
         (s\<lparr>sys_client := cl', sys_callers := (sys_callers s)(i \<mapsto> c\<lparr>c_pc := p\<rparr>),
            sys_log := sys_log s @ l\<rparr>)"
  | timer_busy:
      "sys_callers s i = Some c \<Longrightarrow> c_pc c = AtBusy \<Longrightarrow>
       advance_busy (sys_client s) (c_request c) = (cl', p, l) \<Longrightarrow>
       step cmds s
         (s\<lparr>sys_client := cl', sys_callers := (sys_callers s)(i \<mapsto> c\<lparr>c_pc := p\<rparr>),
            sys_log := sys_log s @ l\<rparr>)"
  | frame:
      "receive cmds (sys_client s) buf = (cl', evs, r) \<Longrightarrow>
       step cmds s (s\<lparr>sys_client := cl'\<rparr>)"
  | timeout_cfm:
      "cl_sessions (sys_client s) k = Some se \<Longrightarrow> s_once_cfm se \<Longrightarrow>
       session_emit se (Err (Error ''CFM timeout'')) = Inr se' \<Longrightarrow>
       step cmds s (s\<lparr>sys_client := (sys_client s)\<lparr>cl_sessions := (cl_sessions (sys_client s))(k \<mapsto> se')\<rparr>\<rparr>)"
  | timeout_done:
      "cl_sessions (sys_client s) k = Some se \<Longrightarrow> s_done_timer se \<Longrightarrow>
       session_emit se (Err (Error ''NTF timout'')) = Inr se' \<Longrightarrow>
       step cmds s (s\<lparr>sys_client := (sys_client s)\<lparr>cl_sessions := (cl_sessions (sys_client s))(k \<mapsto> se')\<rparr>\<rparr>)"
  | resume_cfm:
      "sys_callers s i = Some c \<Longrightarrow> c_pc c = AwaitCfm \<Longrightarrow>
       cl_sessions (sys_client s) (sessionKey (c_request c)) = Some se \<Longrightarrow> s_settled se = Some a \<Longrightarrow>
       request_cfm (sys_client s) (c_command c) (c_request c) a = (cl', evs, out) \<Longrightarrow>
       step cmds s
         (s\<lparr>sys_client := cl', sys_callers := (sys_callers s)(i \<mapsto> c\<lparr>c_pc := pc_after AwaitDone out\<rparr>),
            sys_log := sys_log s @ log_after i out\<rparr>)"
  | resume_done:
      "sys_callers s i = Some c \<Longrightarrow> c_pc c = AwaitDone \<Longrightarrow>
       cl_sessions (sys_client s) (sessionKey (c_request c)) = Some se \<Longrightarrow> s_settled se = Some a \<Longrightarrow>
       request_done (sys_client s) (c_request c) a = (cl', evs, out) \<Longrightarrow>
       step cmds s
         (s\<lparr>sys_client := cl', sys_callers := (sys_callers s)(i \<mapsto> c\<lparr>c_pc := pc_after AwaitDone out\<rparr>),
            sys_log := sys_log s @ log_after i out\<rparr>)"

text \<open>The states that the client reaches from its initial state.\<close>

inductive reachable :: "(string \<times> command) list \<Rightarrow> system \<Rightarrow> bool"
  for cmds :: "(string \<times> command) list"
  where
    init: "reachable cmds initial_system"
  | after: "reachable cmds s \<Longrightarrow> step cmds s s' \<Longrightarrow> reachable cmds s'"

text \<open>
  A decoder of the registry gets the session object, or \<open>undefined\<close>, and may change the
  result of the session and emit events on it; it does not make a session, and does not
  replace the request of the session.
\<close>

definition keeps_request :: "(buffer \<Rightarrow> session option \<Rightarrow> session option \<times> js result) \<Rightarrow> bool" where
  "keeps_request dec =
     (\<forall>data session session' r.
        dec data session = (session', r) \<longrightarrow>
        map_option s_request session' = map_option s_request session)"

definition registry_ok :: "(string \<times> command) list \<Rightarrow> bool" where
  "registry_ok cmds =
     (\<forall>name c dec. (name, c) \<in> set cmds \<and> cmd_decode c = Some dec \<longrightarrow> keeps_request dec)"

text \<open>The call holds the flag \<open>_busy\<close>: it has set it and not yet cleared it.\<close>

definition writing :: "caller \<Rightarrow> bool" where
  "writing c = (c_pc c = AwaitCfm)"

text \<open>The call has its session in the table.\<close>

definition registered :: "caller \<Rightarrow> bool" where
  "registered c = (c_pc c = AtBusy \<or> c_pc c = AwaitCfm \<or> c_pc c = AwaitDone)"

text \<open>The request whose session the table holds under a key.\<close>

definition owner :: "client \<Rightarrow> string \<Rightarrow> request option" where
  "owner cl k = map_option s_request (cl_sessions cl k)"

text \<open>
  The calls that have written their frame and not completed, after a log: \<open>open_after\<close>
  starts from the calls \<open>opn\<close>.  \<open>check_log\<close> reads a log from its start: whenever a call
  writes, no other call with the same session key is among those that have written and
  not completed.
\<close>

fun open_after :: "(nat \<times> string) list \<Rightarrow> log_event list \<Rightarrow> (nat \<times> string) list" where
  "open_after opn [] = opn"
| "open_after opn (Wrote j k b # l) = open_after ((j, k) # opn) l"
| "open_after opn (Completed i out # l) = open_after (filter (\<lambda>(i', k). i' \<noteq> i) opn) l"

fun check_log :: "(nat \<times> string) list \<Rightarrow> log_event list \<Rightarrow> bool" where
  "check_log opn [] = True"
| "check_log opn (Wrote j k b # l) =
     ((\<forall>(i, k') \<in> set opn. i \<noteq> j \<longrightarrow> k' \<noteq> k) \<and> check_log ((j, k) # opn) l)"
| "check_log opn (Completed i out # l) = check_log (filter (\<lambda>(i', k). i' \<noteq> i) opn) l"

text \<open>The invariant of the reachable states.\<close>

definition invariant :: "system \<Rightarrow> bool" where
  "invariant s =
     ((\<forall>i c. sys_callers s i = Some c \<longrightarrow>
         r_id (c_request c) = i \<and> i \<le> cl_requestId (sys_client s))
      \<and> (\<forall>i c. sys_callers s i = Some c \<and> registered c \<longrightarrow>
         owner (sys_client s) (sessionKey (c_request c)) = Some (c_request c))
      \<and> (\<forall>i c. sys_callers s i = Some c \<and> writing c \<longrightarrow> cl_busy (sys_client s))
      \<and> (\<forall>i j c d. sys_callers s i = Some c \<and> sys_callers s j = Some d \<and> writing c \<and> writing d
           \<longrightarrow> i = j)
      \<and> (\<forall>(i, k) \<in> set (open_after [] (sys_log s)).
           \<exists>c. sys_callers s i = Some c \<and> k = sessionKey (c_request c)
               \<and> (c_pc c = AwaitCfm \<or> c_pc c = AwaitDone))
      \<and> check_log [] (sys_log s))"

text \<open>
  Two calls of \<open>GW_GET_VERSION_REQ\<close> by two callers.  The first call writes its frame
  and the gateway confirms it; the second call is made before the first one goes on, and
  finds the session key taken; the first call returns the version, and the timer of the
  second call finds the key free, so that the second call writes its frame.
\<close>

definition version_request_2 :: request where
  "version_request_2 = version_request\<lparr>r_id := 2\<rparr>"

definition two_calls :: system where
  "two_calls =
     \<lparr>sys_client =
        \<lparr>cl_requestId = 2, cl_sessionId = 0,
         cl_sessions = [''8'' \<mapsto> once (VeluxSession False version_request_2) ''cfm''],
         cl_busy = True\<rparr>,
      sys_callers =
        [1 \<mapsto> \<lparr>c_command = GW_GET_VERSION_REQ, c_request = version_request,
               c_pc = Finished (Return version_payload)\<rparr>,
         2 \<mapsto> \<lparr>c_command = GW_GET_VERSION_REQ, c_request = version_request_2, c_pc = AwaitCfm\<rparr>],
      sys_log =
        [Wrote 1 ''8'' [0xC0, 0, 3, 0, 8, 11, 0xC0],
         Completed 1 (Return version_payload),
         Wrote 2 ''8'' [0xC0, 0, 3, 0, 8, 11, 0xC0]]\<rparr>"

section \<open>Properties of the SLIP codec\<close>

text \<open>The loop of \<open>encode\<close> appends the stuffed bytes to what the output buffer holds.\<close>

lemma encode_loop_spec:
  "i \<le> length buf \<Longrightarrow> j + 2 * (length buf - i) \<le> length out \<Longrightarrow>
   encode_loop buf out i j = (out', j') \<Longrightarrow>
   length out' = length out \<and> j' = j + length (stuff (drop i buf)) \<and> take j' out' = take j out @ stuff (drop i buf)"
proof (induction buf out i j arbitrary: out' j' rule: encode_loop.induct)
  case (1 buf out i j)
  show ?case
  proof (cases "i < length buf")
    case False
    with "1.prems" show ?thesis by (simp add: encode_loop.simps)
  next
    case True
    then have d: "drop i buf = buf ! i # drop (Suc i) buf" by (simp add: Cons_nth_drop_Suc)
    from True "1.prems"(2) have j2: "j + 1 < length out" by simp
    from True "1.prems"(2) have p2: "j + 2 + 2 * (length buf - (i + 1)) \<le> length out" by arith
    from True "1.prems"(2) have p1: "j + 1 + 2 * (length buf - (i + 1)) \<le> length out" by arith
    from True have il: "i + 1 \<le> length buf" by simp
    consider (a) "buf ! i = END" | (b) "buf ! i \<noteq> END" "buf ! i = ESC" | (c) "buf ! i \<noteq> END" "buf ! i \<noteq> ESC" by blast
    then show ?thesis
    proof cases
      case a
      with True "1.prems" have e: "encode_loop buf (out[j := ESC, j + 1 := ESC_END]) (i + 1) (j + 2) = (out', j')"
        by (simp add: encode_loop.simps[of buf out i j])
      have "length out' = length (out[j := ESC, j + 1 := ESC_END]) \<and> j' = j + 2 + length (stuff (drop (i + 1) buf)) \<and>
        take j' out' = take (j + 2) (out[j := ESC, j + 1 := ESC_END]) @ stuff (drop (i + 1) buf)"
        using "1.IH"(1)[OF True a il _ e] p2 by auto
      moreover have "take (j + 2) (out[j := ESC, j + 1 := ESC_END]) = take j out @ [ESC, ESC_END]"
        using j2 by (simp add: take_Suc_conv_app_nth nth_list_update)
      ultimately show ?thesis using a d by auto
    next
      case b
      with True "1.prems" have e: "encode_loop buf (out[j := ESC, j + 1 := ESC_ESC]) (i + 1) (j + 2) = (out', j')"
        by (simp add: encode_loop.simps[of buf out i j])
      have "length out' = length (out[j := ESC, j + 1 := ESC_ESC]) \<and> j' = j + 2 + length (stuff (drop (i + 1) buf)) \<and>
        take j' out' = take (j + 2) (out[j := ESC, j + 1 := ESC_ESC]) @ stuff (drop (i + 1) buf)"
        using "1.IH"(2)[OF True b il _ e] p2 by auto
      moreover have "take (j + 2) (out[j := ESC, j + 1 := ESC_ESC]) = take j out @ [ESC, ESC_ESC]"
        using j2 by (simp add: take_Suc_conv_app_nth nth_list_update)
      ultimately show ?thesis using b d by auto
    next
      case c
      with True "1.prems" have e: "encode_loop buf (out[j := buf ! i]) (i + 1) (j + 1) = (out', j')"
        by (simp add: encode_loop.simps[of buf out i j])
      have "length out' = length (out[j := buf ! i]) \<and> j' = j + 1 + length (stuff (drop (i + 1) buf)) \<and>
        take j' out' = take (j + 1) (out[j := buf ! i]) @ stuff (drop (i + 1) buf)"
        using "1.IH"(3)[OF True c il _ e] p1 by auto
      moreover have "take (j + 1) (out[j := buf ! i]) = take j out @ [buf ! i]"
        using j2 by (simp add: take_Suc_conv_app_nth)
      ultimately show ?thesis using c d by auto
    qed
  qed
qed

lemma encode_eq: "encode buf = END # stuff buf @ [END]"
proof -
  obtain out j where e: "encode_loop buf ((alloc (length buf * 2 + 2))[0 := END]) 0 1 = (out, j)"
    by (cases "encode_loop buf ((alloc (length buf * 2 + 2))[0 := END]) 0 1") 
  have s: "length out = length buf * 2 + 2 \<and> j = 1 + length (stuff (drop 0 buf)) \<and> take j out = take 1 ((alloc (length buf * 2 + 2))[0 := END]) @ stuff (drop 0 buf)"
    using encode_loop_spec[OF _ _ e] by (auto simp add: alloc_def)
  have l: "length (stuff buf) \<le> 2 * length buf" by (induction buf) auto
  from s l have jl: "j < length out" by auto
  have "take (j + 1) (out[j := END]) = take j out @ [END]"
    using jl by (simp add: take_Suc_conv_app_nth)
  moreover from s have "take j out = END # stuff buf" by (auto simp add: alloc_def)
  ultimately show ?thesis using e by (simp add: encode_def Let_def)
qed

lemma decoded_as_cong:
  "(\<And>m. k \<le> m \<Longrightarrow> m < k + length bs \<Longrightarrow> f m = g m) \<Longrightarrow> decoded_as f k bs = decoded_as g k bs"
  by (induction bs arbitrary: k) auto

lemma stuff_length_ge: "length bs \<le> length (stuff bs)"
  by (induction bs) auto



lemma decoded_as_length [simp]: "length (decoded_as mem k bs) = length bs"
  by (induction bs arbitrary: k) auto

lemma drop_Cons_nth: "drop i xs = y # ys \<Longrightarrow> i < length xs \<and> xs ! i = y \<and> drop (Suc i) xs = ys"
  by (metis Cons_nth_drop_Suc drop_all list.discI list.inject not_le)

lemma decode_loop_spec:
  "drop i buf = stuff bs @ [END] \<Longrightarrow> j < i \<Longrightarrow> j + length bs \<le> length out \<Longrightarrow>
   \<exists>out' buf'. decode_loop buf out i j = Inr (out', j + length bs, buf') \<and>
      take (j + length bs) out' = take j out @ decoded_as ((!) out) j bs"
proof (induction bs arbitrary: buf out i j)
  case Nil
  then have "i < length buf" "drop (Suc i) buf = []" using drop_Cons_nth[of i buf END "[]"] by auto
  then have "\<not> i < length buf - 1" by auto
  then show ?case by (simp add: decode_loop.simps[of buf out i j])
next
  case (Cons b bs)
  have jl: "j < length out" using Cons.prems(3) by simp
  consider (a) "b = END" | (b) "b = ESC" | (c) "b \<noteq> END" "b \<noteq> ESC" by blast
  then show ?case
  proof cases
    case a
    with Cons.prems(1) have d: "drop i buf = ESC # ESC_END # stuff bs @ [END]" by simp
    from drop_Cons_nth[OF d] have i0: "i < length buf" "buf ! i = ESC" and d1: "drop (Suc i) buf = ESC_END # stuff bs @ [END]" by auto
    from drop_Cons_nth[OF d1] have i1: "Suc i < length buf" "buf ! Suc i = ESC_END" and d2: "drop (Suc (Suc i)) buf = stuff bs @ [END]" by auto
    have st: "decode_loop buf out i j = decode_loop (buf[j := END]) out (i + 2) (j + 1)"
      using i0 i1 less_diff_conv[of i "length buf" 1] by (subst decode_loop.simps) (simp add: END_def ESC_def)
    have d3: "drop (i + 2) (buf[j := END]) = stuff bs @ [END]" using d2 Cons.prems(2) by simp
    from Cons.IH[OF d3, of "j + 1" out] Cons.prems obtain out' buf' where
      r: "decode_loop (buf[j := END]) out (i + 2) (j + 1) = Inr (out', j + 1 + length bs, buf')"
      and t: "take (j + 1 + length bs) out' = take (j + 1) out @ decoded_as ((!) out) (j + 1) bs" by auto
    show ?thesis using st r t jl a by (simp add: take_Suc_conv_app_nth)
  next
    case b
    with Cons.prems(1) have d: "drop i buf = ESC # ESC_ESC # stuff bs @ [END]" by (simp add: END_def ESC_def)
    from drop_Cons_nth[OF d] have i0: "i < length buf" "buf ! i = ESC" and d1: "drop (Suc i) buf = ESC_ESC # stuff bs @ [END]" by auto
    from drop_Cons_nth[OF d1] have i1: "Suc i < length buf" "buf ! Suc i = ESC_ESC" and d2: "drop (Suc (Suc i)) buf = stuff bs @ [END]" by auto
    have st: "decode_loop buf out i j = decode_loop (buf[j := ESC]) out (i + 2) (j + 1)"
      using i0 i1 less_diff_conv[of i "length buf" 1] by (subst decode_loop.simps) (simp add: END_def ESC_def ESC_END_def ESC_ESC_def)
    have d3: "drop (i + 2) (buf[j := ESC]) = stuff bs @ [END]" using d2 Cons.prems(2) by simp
    from Cons.IH[OF d3, of "j + 1" out] Cons.prems obtain out' buf' where
      r: "decode_loop (buf[j := ESC]) out (i + 2) (j + 1) = Inr (out', j + 1 + length bs, buf')"
      and t: "take (j + 1 + length bs) out' = take (j + 1) out @ decoded_as ((!) out) (j + 1) bs" by auto
    show ?thesis using st r t jl b by (simp add: take_Suc_conv_app_nth)
  next
    case c
    with Cons.prems(1) have d: "drop i buf = b # stuff bs @ [END]" by simp
    from drop_Cons_nth[OF d] have i0: "i < length buf" "buf ! i = b" and d1: "drop (Suc i) buf = stuff bs @ [END]" by auto
    from d1 have "Suc i < length buf" by (metis drop_all not_le snoc_eq_iff_butlast) 
    then have i1: "i < length buf - 1" by simp
    have st: "decode_loop buf out i j = decode_loop buf (out[j := b]) (i + 1) (j + 1)"
      using i0 i1 c by (subst decode_loop.simps) simp
    from d1 have d3: "drop (i + 1) buf = stuff bs @ [END]" by simp
    from Cons.IH[OF d3, of "j + 1" "out[j := b]"] Cons.prems obtain out' buf' where
      r: "decode_loop buf (out[j := b]) (i + 1) (j + 1) = Inr (out', j + 1 + length bs, buf')"
      and t: "take (j + 1 + length bs) out' = take (j + 1) (out[j := b]) @ decoded_as ((!) (out[j := b])) (j + 1) bs" by auto
    have "decoded_as ((!) (out[j := b])) (j + 1) bs = decoded_as ((!) out) (j + 1) bs"
      by (rule decoded_as_cong) simp
    then show ?thesis using st r t jl c by (simp add: take_Suc_conv_app_nth)
  qed
qed


lemma decode_encode: "decode pool (encode buf) = Inr (decoded_as pool 0 buf)"
proof -
  let ?f = "END # stuff buf @ [END]"
  let ?out = "allocUnsafe pool (length ?f - 2)"
  have lo: "length ?out = length (stuff buf)" by (simp add: allocUnsafe_def)
  have "drop 1 ?f = stuff buf @ [END]" by simp
  from decode_loop_spec[OF this, of 0 ?out] obtain out' buf' where
    r: "decode_loop ?f ?out 1 0 = Inr (out', length buf, buf')"
    and t: "take (length buf) out' = decoded_as ((!) ?out) 0 buf"
    using stuff_length_ge[of buf] lo by auto
  have "decoded_as ((!) ?out) 0 buf = decoded_as pool 0 buf"
    using stuff_length_ge[of buf] by (intro decoded_as_cong) (simp add: allocUnsafe_def)
  with r t show ?thesis
    by (simp add: decode_def encode_eq Let_def last_conv_nth[symmetric] nth_append)
qed

lemma decoded_as_plain: "\<forall>b \<in> set bs. b \<noteq> END \<and> b \<noteq> ESC \<Longrightarrow> decoded_as mem k bs = bs"
  by (induction bs arbitrary: k) auto

text \<open>
  On the encoding of a buffer, \<open>decode\<close> returns the buffer with every byte that was
  escaped replaced by what the memory of the output buffer held at that index.  So a
  buffer without \<open>END\<close> and \<open>ESC\<close> bytes is returned as it was.
\<close>

lemma decode_encode_plain:
  "\<forall>b \<in> set buf. b \<noteq> END \<and> b \<noteq> ESC \<Longrightarrow> decode pool (encode buf) = Inr buf"
  by (simp add: decode_encode decoded_as_plain)

lemma decode_encode_escaped: "decode pool (encode [END]) = Inr [pool 0]"
  by (simp add: decode_encode)

text \<open>
  Claim C1: decoding the SLIP encoding of a buffer returns the buffer.  The source's
  \<open>decode\<close> assigns an unescaped byte to \<open>buf[o]\<close>, not to \<open>out[o]\<close>: for the one-byte
  buffer \<open>C0\<close>, with zeros in the memory that \<open>Buffer.allocUnsafe\<close> hands out, it
  returns the one-byte buffer \<open>00\<close>.
\<close>

theorem slip_decode_encode_END:
  "encode [0xC0] = [0xC0, 0xDB, 0xDC, 0xC0] \<and> decode (\<lambda>_. 0) (encode [0xC0]) = Inr [0x00]"
  by code_simp

theorem slip_decode_encode_END_witness:
  "decode (\<lambda>_. 0) (encode [0xC0]) \<noteq> Inr [0xC0]"
  using slip_decode_encode_END by auto

section \<open>Properties of the wire frame\<close>

lemma write_bytes_length [simp]: "length (write_bytes buf off bs) = length buf"
  by (induction bs arbitrary: buf off) auto

lemma write_bytes_append:
  "length ys = length bs \<Longrightarrow> write_bytes (xs @ ys @ zs) (length xs) bs = xs @ bs @ zs"
proof (induction bs arbitrary: xs ys)
  case Nil
  then show ?case by simp
next
  case (Cons b bs)
  then obtain y ys' where ys: "ys = y # ys'" by (cases ys) auto
  have "(xs @ ys @ zs)[length xs := b] = (xs @ [b]) @ ys' @ zs" by (simp add: ys)
  moreover have "write_bytes ((xs @ [b]) @ ys' @ zs) (length (xs @ [b])) bs = (xs @ [b]) @ bs @ zs"
    using Cons.prems ys by (intro Cons.IH) simp
  ultimately show ?case by simp
qed

lemma xor_bytes_snoc: "xor_bytes (xs @ [x]) = xor_bytes xs XOR x"
  by (simp add: xor_bytes_def)

lemma alloc_header: "alloc (len + 5) = [0, 0, 0, 0] @ replicate len 0 @ [0]"
  by (simp add: alloc_def numeral_eq_Suc replicate_append_same)


lemma write_bytes_Cons: "write_bytes (x # xs) (Suc off) bs = x # write_bytes xs off bs"
  by (induction bs arbitrary: xs off) auto


lemma write_bytes_4: "write_bytes (a # b # c # d # ys) 4 bs = a # b # c # d # write_bytes ys 0 bs"
proof -
  have "(4::nat) = Suc (Suc (Suc (Suc 0)))" by simp
  then show ?thesis by (simp only: write_bytes_Cons)
qed

lemma write_bytes_0: "length ys = length bs \<Longrightarrow> write_bytes (ys @ zs) 0 bs = bs @ zs"
  using write_bytes_append[of ys bs "[]" zs] by simp

lemma frame_eq:
  "frame cmd (Some p) =
     [0, of_nat (length p + 3), of_nat (cmd div 256), of_nat cmd] @ p @
     [xor_bytes ([0, of_nat (length p + 3), of_nat (cmd div 256), of_nat cmd] @ p)]"
proof -
  let ?h = "[0, of_nat (length p + 3), of_nat (cmd div 256), of_nat cmd] :: buffer"
  have a: "(alloc (length p + 5))[0 := 0, 1 := of_nat (length p + 3), 2 := of_nat (cmd div 256), 3 := of_nat cmd]
        = ?h @ replicate (length p) 0 @ [0]"
    by (simp add: alloc_header)
  have w: "write_bytes (?h @ replicate (length p) 0 @ [0]) 4 p = ?h @ p @ [0]"
    by (simp only: append_Cons append_Nil write_bytes_4) (simp add: write_bytes_0)
  have x: "xor_bytes (?h @ p @ [0]) = xor_bytes (?h @ p)"
    using xor_bytes_snoc[of "?h @ p" 0] by simp
  have l: "length (?h @ p) = length p + 4" by simp
  have u: "(?h @ p @ [0])[length p + 4 := c] = ?h @ p @ [c]" for c
    using list_update_length[of "?h @ p" 0 "[]" c] by (simp only: l append_assoc)
  have "frame cmd (Some p) = (write_bytes ((alloc (length p + 5))[0 := 0, 1 := of_nat (length p + 3), 2 := of_nat (cmd div 256), 3 := of_nat cmd]) 4 p)
      [length p + 4 := xor_bytes (write_bytes ((alloc (length p + 5))[0 := 0, 1 := of_nat (length p + 3), 2 := of_nat (cmd div 256), 3 := of_nat cmd]) 4 p)]"
    by (simp only: frame_def Let_def option.case)
  also have "\<dots> = (?h @ p @ [0])[length p + 4 := xor_bytes (?h @ p @ [0])]"
    by (simp only: a w)
  also have "\<dots> = ?h @ p @ [xor_bytes (?h @ p)]"
    by (simp only: x u)
  finally show ?thesis .
qed

lemma frame_None: "frame cmd None = frame cmd (Some [])"
  by (simp add: frame_def)

lemma frame_layout:
  assumes "length p \<le> 250" and "cmd < 0x10000"
  shows "frame cmd (Some p) =
           [0, of_nat (length p + 3), of_nat (cmd div 256), of_nat cmd] @ p @
           [xor_bytes ([0, of_nat (length p + 3), of_nat (cmd div 256), of_nat cmd] @ p)]
         \<and> unat (frame cmd (Some p) ! 1) = length p + 3
         \<and> readUInt16BE (frame cmd (Some p)) 2 = Inr cmd
         \<and> subarray_to_last (frame cmd (Some p)) 4 = p
         \<and> last (frame cmd (Some p)) = xor_bytes (butlast (frame cmd (Some p)))"
proof -
  let ?h = "[0, of_nat (length p + 3), of_nat (cmd div 256), of_nat cmd] :: buffer"
  let ?c = "xor_bytes (?h @ p)"
  have f: "frame cmd (Some p) = ?h @ p @ [?c]" by (rule frame_eq)
  have "unat (of_nat (length p + 3) :: byte) = (length p + 3) mod 2 ^ LENGTH(8)"
    by (rule unat_of_nat)
  then have l: "unat (of_nat (length p + 3) :: byte) = length p + 3"
    using assms(1) by simp
  have hi: "unat (of_nat (cmd div 256) :: byte) = cmd div 256"
    using assms(2) by (simp add: unat_of_nat)
  have lo: "unat (of_nat cmd :: byte) = cmd mod 256"
    by (simp add: unat_of_nat)
  have r: "readUInt16BE (?h @ p @ [?c]) 2 = Inr cmd"
    using hi lo by (simp add: readUInt16BE_def)
  have s: "subarray_to_last (?h @ p @ [?c]) 4 = p"
    by (simp add: subarray_to_last_def)
  have b: "butlast (?h @ p @ [?c]) = ?h @ p"
    by (simp add: butlast_append)
  have la: "last (?h @ p @ [?c]) = ?c" by simp
  have n: "(?h @ p @ [?c]) ! 1 = of_nat (length p + 3)" by simp
  show ?thesis
    unfolding f using l r s b la n by (simp only: simp_thms)
qed

text \<open>
  Claim C2: for a 16-bit command id and a payload \<open>p\<close> of at most 250 bytes, the frame
  that \<open>request\<close> builds is \<open>00\<close>, the length of \<open>p\<close> plus 3, the two bytes of the
  command id (high byte first), \<open>p\<close>, and the XOR of all these bytes; so the accessors of
  \<open>#receive\<close> find the command id in bytes 2 and 3 and \<open>p\<close> from byte 4 up to the
  last byte, and the last byte is the XOR of the bytes before it.  A request without
  data has the frame of the empty payload: \<open>00 03\<close>, the two bytes of the command id
  and their checksum.
\<close>

theorem frame_wire_format:
  assumes "length p \<le> 250" and "cmd < 0x10000"
  shows "frame cmd (Some p) =
           [0, of_nat (length p + 3), of_nat (cmd div 256), of_nat cmd] @ p @
           [xor_bytes ([0, of_nat (length p + 3), of_nat (cmd div 256), of_nat cmd] @ p)]
         \<and> unat (frame cmd (Some p) ! 1) = length p + 3
         \<and> readUInt16BE (frame cmd (Some p)) 2 = Inr cmd
         \<and> subarray_to_last (frame cmd (Some p)) 4 = p
         \<and> last (frame cmd (Some p)) = xor_bytes (butlast (frame cmd (Some p)))
         \<and> frame cmd None =
             [0, 3, of_nat (cmd div 256), of_nat cmd,
              xor_bytes [0, 3, of_nat (cmd div 256), of_nat cmd]]
         \<and> unat (frame cmd None ! 1) = 3
         \<and> readUInt16BE (frame cmd None) 2 = Inr cmd
         \<and> subarray_to_last (frame cmd None) 4 = []
         \<and> last (frame cmd None) = xor_bytes (butlast (frame cmd None))"
proof -
  note s = frame_layout[OF assms]
  have n: "frame cmd None =
             [0, 3, of_nat (cmd div 256), of_nat cmd,
              xor_bytes [0, 3, of_nat (cmd div 256), of_nat cmd]]
         \<and> unat (frame cmd None ! 1) = 3
         \<and> readUInt16BE (frame cmd None) 2 = Inr cmd
         \<and> subarray_to_last (frame cmd None) 4 = []
         \<and> last (frame cmd None) = xor_bytes (butlast (frame cmd None))"
  proof -
    have "length ([] :: buffer) \<le> 250" by simp
    from frame_layout[OF this assms(2)] show ?thesis
      unfolding frame_None by (elim conjE, intro conjI) simp_all
  qed
  from s n show ?thesis by blast
qed

theorem frame_wire_format_witness:
  "frame 0x3000 (Some [0x61, 0x62, 0x63]) = [0x00, 0x06, 0x30, 0x00, 0x61, 0x62, 0x63, 0x56]
   \<and> readUInt16BE (frame 0x3000 (Some [0x61, 0x62, 0x63])) 2 = Inr 0x3000
   \<and> subarray_to_last (frame 0x3000 (Some [0x61, 0x62, 0x63])) 4 = [0x61, 0x62, 0x63]
   \<and> frame 0x3000 None = [0x00, 0x03, 0x30, 0x00, 0x33]
   \<and> readUInt16BE (frame 0x3000 None) 2 = Inr 0x3000
   \<and> subarray_to_last (frame 0x3000 None) 4 = []"
  using frame_wire_format[of "[0x61, 0x62, 0x63]" "0x3000"] by (simp add: xor_bytes_def readUInt16BE_def subarray_to_last_def)

section \<open>Properties of the position codec\<close>

lemma ToNumber_Num [simp]: "ToNumber (Num n) = Num n"
  by (simp add: ToNumber_def)

text \<open>\<open>Math_round_div\<close> is \<open>Math.round\<close> of the quotient: the floor of the quotient plus one half.\<close>

lemma Math_round_div_floor:
  assumes "0 < b"
  shows "Math_round_div a b = \<lfloor>real_of_int a / real_of_int b + 1 / 2\<rfloor>"
proof -
  have "real_of_int a / real_of_int b + 1 / 2 = real_of_int (2 * a + b) / real_of_int (2 * b)"
    using assms by (simp add: field_simps)
  then show ?thesis
    by (simp only: Math_round_div_def floor_divide_of_int_eq)
qed

lemma decodePosition_percent:
  assumes "v \<le> 0xC800"
  shows "decodePosition v = Num (Math_round_div (int v) 0x0200)"
    and "0 \<le> Math_round_div (int v) 0x0200" and "Math_round_div (int v) 0x0200 \<le> 100"
  using assms by (auto simp: decodePosition_def Math_round_div_def)

lemma decodePosition_relative:
  assumes "0xC800 < v" "v < 0xD000"
  shows "decodePosition v = Str (''relative '' @ num_toString (Math_round_div (int v - 0xC800) 10 - 100))"
  using assms by (auto simp: decodePosition_def)

lemma decode_encode_percent:
  assumes "0 \<le> p" "p \<le> 100"
  shows "encodePosition (Num p) = Num (p * 0x0200)" "decodePosition (nat (p * 0x0200)) = Num p"
proof -
  show "encodePosition (Num p) = Num (p * 0x0200)" by (simp add: encodePosition_def)
  have ne: "nat (p * 512) \<noteq> 0xD100" "nat (p * 512) \<noteq> 0xD200" "nat (p * 512) \<noteq> 0xD300"
    "nat (p * 512) \<noteq> 0xD400" "nat (p * 512) \<noteq> 0xF7FF" and le: "nat (p * 512) \<le> 0xC800"
    using assms by auto
  have "Math_round_div (int (nat (p * 512))) 512 = p"
    using assms by (simp add: Math_round_div_def)
  with ne le show "decodePosition (nat (p * 0x0200)) = Num p"
    by (simp add: decodePosition_def)
qed


text \<open>
  Claim C9: the position decoder maps a value up to \<open>0xC800\<close> to the rounded quotient
  by \<open>0x0200\<close>, a percentage from 0 to 100; a value between \<open>0xC800\<close> and \<open>0xD000\<close> to
  a relative offset; \<open>0xD100\<close>, \<open>0xD200\<close>, \<open>0xD300\<close> and \<open>0xD400\<close> to \<open>target\<close>,
  \<open>current\<close>, \<open>default\<close> and \<open>ignore\<close>; and \<open>0xF7FF\<close> to \<open>unknown\<close>.  The encoder maps
  a percentage \<open>p\<close> to \<open>p * 0x0200\<close>, which the decoder maps back to \<open>p\<close>, and the four
  names to their values.
\<close>

theorem position_codec:
  "(v \<le> 0xC800 \<longrightarrow>
      decodePosition v = Num \<lfloor>real v / 0x0200 + 1 / 2\<rfloor>
      \<and> 0 \<le> \<lfloor>real v / 0x0200 + 1 / 2\<rfloor> \<and> \<lfloor>real v / 0x0200 + 1 / 2\<rfloor> \<le> 100)
   \<and> (0xC800 < v \<and> v < 0xD000 \<longrightarrow>
      decodePosition v = Str (''relative '' @ num_toString (\<lfloor>(real v - 0xC800) / 10 + 1 / 2\<rfloor> - 100)))
   \<and> decodePosition 0xD100 = Str ''target'' \<and> decodePosition 0xD200 = Str ''current''
   \<and> decodePosition 0xD300 = Str ''default'' \<and> decodePosition 0xD400 = Str ''ignore''
   \<and> decodePosition 0xF7FF = Str ''unknown''
   \<and> encodePosition (Num p) = Num (p * 0x0200)
   \<and> (0 \<le> p \<and> p \<le> 100 \<longrightarrow> decodePosition (nat (p * 0x0200)) = Num p)
   \<and> encodePosition (Str ''target'') = Num 0xD100 \<and> encodePosition (Str ''current'') = Num 0xD200
   \<and> encodePosition (Str ''default'') = Num 0xD300 \<and> encodePosition (Str ''ignore'') = Num 0xD400"
proof -
  have r1: "Math_round_div (int v) 0x0200 = \<lfloor>real v / 0x0200 + 1 / 2\<rfloor>"
    using Math_round_div_floor[of "0x0200" "int v"] by simp
  have r2: "Math_round_div (int v - 0xC800) 10 = \<lfloor>(real v - 0xC800) / 10 + 1 / 2\<rfloor>"
    using Math_round_div_floor[of 10 "int v - 0xC800"] by simp
  have a: "v \<le> 0xC800 \<longrightarrow>
      decodePosition v = Num \<lfloor>real v / 0x0200 + 1 / 2\<rfloor>
      \<and> 0 \<le> \<lfloor>real v / 0x0200 + 1 / 2\<rfloor> \<and> \<lfloor>real v / 0x0200 + 1 / 2\<rfloor> \<le> 100"
    using decodePosition_percent[of v] by (simp only: r1) blast
  have b: "0xC800 < v \<and> v < 0xD000 \<longrightarrow>
      decodePosition v = Str (''relative '' @ num_toString (\<lfloor>(real v - 0xC800) / 10 + 1 / 2\<rfloor> - 100))"
    using decodePosition_relative[of v] by (simp only: r2) blast
  have c: "decodePosition 0xD100 = Str ''target''" "decodePosition 0xD200 = Str ''current''"
    "decodePosition 0xD300 = Str ''default''" "decodePosition 0xD400 = Str ''ignore''"
    "decodePosition 0xF7FF = Str ''unknown''"
    by (simp_all add: decodePosition_def)
  have d: "encodePosition (Num p) = Num (p * 0x0200)" by (simp add: encodePosition_def)
  have e: "0 \<le> p \<and> p \<le> 100 \<longrightarrow> decodePosition (nat (p * 0x0200)) = Num p"
    using decode_encode_percent(2)[of p] by blast
  have f: "encodePosition (Str ''target'') = Num 0xD100" "encodePosition (Str ''current'') = Num 0xD200"
    "encodePosition (Str ''default'') = Num 0xD300" "encodePosition (Str ''ignore'') = Num 0xD400"
    by (simp_all add: encodePosition_def)
  from a b c d e f show ?thesis by blast
qed

theorem position_codec_witness:
  "decodePosition 0x6400 = Num 50 \<and> decodePosition 0xCC00 = Str ''relative 2''
   \<and> decodePosition (nat (50 * 0x0200)) = Num 50 \<and> encodePosition (Num 50) = Num 0x6400"
proof -
  have n: "num_toString 2 = ''2''" by code_simp
  show ?thesis
    using position_codec[of "0x6400" 50] position_codec[of "0xCC00" 50] by (simp add: n)
qed

section \<open>Properties of the registry\<close>

lemma readUInt8_in: "i < length data \<Longrightarrow> readUInt8 data i = Inr (unat (data ! i))"
  by (simp add: readUInt8_def)

lemma rbind_Inr [simp]: "rbind (Inr x) f = f x"
  by (simp add: rbind_def)

lemma rbind_Inl [simp]: "rbind (Inl e) f = Inl e"
  by (simp add: rbind_def)

lemma num_toString_9: "num_toString 9 = ''9''" by code_simp

text \<open>
  Claim C8, as the code has it: the decoder of \<open>GW_GET_VERSION_CFM\<close> accepts data of
  exactly 9 bytes, and throws the error of \<open>checkData\<close> for data of any other length; for
  9 bytes it forms the software version from bytes 1 to 4 as four components joined by
  dots (its loop from 0 to 5 is commented out); byte 6 is the hardware version, bytes 7
  and 8 the product group and the product type.
\<close>

theorem version_decoder_bytes_1_to_4:
  "GW_GET_VERSION_CFM_decode data =
     (if length data = 9
      then Inr (Obj [(''softwareVersion'',
                      Str (join ''.'' (map (\<lambda>i. num_toString (int (unat (data ! i)))) [1, 2, 3, 4]))),
                     (''hardwareVersion'', Num (int (unat (data ! 6)))),
                     (''productGroup'', Num (int (unat (data ! 7)))),
                     (''productType'', Num (int (unat (data ! 8))))])
      else Inl (Error (num_toString (int (length data)) @ '': invalid data length (expected 9)'')))"
proof (cases "length data = 9")
  case True
  have u: "[1..<5] = [1, 2, 3, 4 :: nat]" by (simp add: upt_rec)
  have c: "checkData data 9 = Inr ()" using True by (simp add: checkData_def)
  have r: "readUInt8s data [1, 2, 3, 4] = Inr (map (\<lambda>i. unat (data ! i)) [1, 2, 3, 4])"
    using True by (simp add: readUInt8_in)
  show ?thesis
    unfolding GW_GET_VERSION_CFM_decode_def u c r using True
    by (simp add: readUInt8_in comp_def)
next
  case False
  then show ?thesis
    by (simp add: GW_GET_VERSION_CFM_decode_def checkData_def num_toString_9)
qed

theorem version_decoder_bytes_1_to_4_witness:
  "GW_GET_VERSION_CFM_decode [0, 2, 0, 0, 71, 0, 6, 14, 3] =
     Inr (Obj [(''softwareVersion'', Str ''2.0.0.71''), (''hardwareVersion'', Num 6),
               (''productGroup'', Num 14), (''productType'', Num 3)])
   \<and> GW_GET_VERSION_CFM_decode [0, 2, 0, 0, 71, 0, 6, 14] =
       Inl (Error ''8: invalid data length (expected 9)'')
   \<and> GW_GET_VERSION_CFM_decode [0, 2, 0, 0, 71, 0, 6, 14, 3, 0] =
       Inl (Error ''10: invalid data length (expected 9)'')"
proof -
  have n: "num_toString 2 = ''2''" "num_toString 0 = ''0''" "num_toString 71 = ''71''"
    "num_toString 8 = ''8''" "num_toString 10 = ''10''"
    by code_simp+
  show ?thesis
    using version_decoder_bytes_1_to_4[of "[0, 2, 0, 0, 71, 0, 6, 14, 3]"]
      version_decoder_bytes_1_to_4[of "[0, 2, 0, 0, 71, 0, 6, 14]"]
      version_decoder_bytes_1_to_4[of "[0, 2, 0, 0, 71, 0, 6, 14, 3, 0]"]
    by (simp add: n)
qed

text \<open>
  Claim C8 as stated, with six components from bytes 0 to 5, fails: for the
  confirmation \<open>00 02 00 00 47 00 06 0E 03\<close> the decoder gives \<open>2.0.0.71\<close>, where bytes 0
  to 5 would give \<open>0.2.0.0.71.0\<close>.
\<close>

theorem version_six_components_counterexample:
  "GW_GET_VERSION_CFM_decode [0, 2, 0, 0, 71, 0, 6, 14, 3] =
     Inr (Obj [(''softwareVersion'', Str ''2.0.0.71''), (''hardwareVersion'', Num 6),
               (''productGroup'', Num 14), (''productType'', Num 3)])
   \<and> spec_softwareVersion [0, 2, 0, 0, 71, 0, 6, 14, 3] = ''0.2.0.0.71.0''"
  by code_simp

text \<open>The registry \<open>commands\<close>: lookups by id and by name.\<close>

lemmas command_defs =
  plain_command_def GW_PASSWORD_ENTER_REQ_def GW_PASSWORD_ENTER_CFM_def GW_GET_VERSION_REQ_def
  GW_GET_VERSION_CFM_def GW_ERROR_NTF_def GW_CS_GET_SYSTEMTABLE_DATA_REQ_def
  GW_CS_GET_SYSTEMTABLE_DATA_CFM_def GW_CS_GET_SYSTEMTABLE_DATA_NTF_def
  GW_COMMAND_SEND_REQ_def GW_COMMAND_SEND_CFM_def GW_SESSION_FINISHED_NTF_def
  GW_SET_LIMITATION_REQ_def GW_SET_LIMITATION_CFM_def

lemma commandNameById_commands:
  "commandNameById commands 0x3000 = Some ''GW_PASSWORD_ENTER_REQ''"
  "commandNameById commands 0x0008 = Some ''GW_GET_VERSION_REQ''"
  "commandNameById commands 0x0009 = Some ''GW_GET_VERSION_CFM''"
  "commandNameById commands 0x0100 = Some ''GW_CS_GET_SYSTEMTABLE_DATA_REQ''"
  "commandNameById commands 0x0101 = Some ''GW_CS_GET_SYSTEMTABLE_DATA_CFM''"
  "commandNameById commands 0x0102 = Some ''GW_CS_GET_SYSTEMTABLE_DATA_NTF''"
  "commandNameById commands 0x0300 = Some ''GW_COMMAND_SEND_REQ''"
  "commandNameById commands 0x0310 = Some ''GW_SET_LIMITATION_REQ''"
  by (simp_all add: commandNameById_def commands_def command_defs)

lemma command_named_commands:
  "command_named commands ''GW_GET_VERSION_CFM'' = Some GW_GET_VERSION_CFM"
  "command_named commands ''GW_CS_GET_SYSTEMTABLE_DATA_NTF'' = Some GW_CS_GET_SYSTEMTABLE_DATA_NTF"
  "command_named commands ''GW_CS_GET_SYSTEMTABLE_DATA_CFM'' = Some GW_CS_GET_SYSTEMTABLE_DATA_CFM"
  by (simp_all add: command_named_def commands_def)

lemma endsWith_names:
  "endsWith ''GW_PASSWORD_ENTER_REQ'' ''_REQ''"
  "endsWith ''GW_COMMAND_SEND_REQ'' ''_REQ''"
  "endsWith ''GW_SET_LIMITATION_REQ'' ''_REQ''"
  "endsWith ''GW_GET_VERSION_CFM'' ''_CFM''"
  by (simp_all add: endsWith_def)

text \<open>\<open>buf.write\<close> stores the whole encoding of a string that fits.\<close>

lemma write_bytes_eq:
  "off + length bs \<le> length buf \<Longrightarrow>
   write_bytes buf off bs = take off buf @ bs @ drop (off + length bs) buf"
proof (induction bs arbitrary: buf off)
  case Nil
  then show ?case by simp
next
  case (Cons b bs)
  then have o: "off < length buf" by simp
  have "write_bytes (buf[off := b]) (off + 1) bs =
          take (off + 1) (buf[off := b]) @ bs @ drop (off + 1 + length bs) (buf[off := b])"
    using Cons.prems by (intro Cons.IH) simp
  moreover have "take (off + 1) (buf[off := b]) = take off buf @ [b]"
    using o by (simp add: take_Suc_conv_app_nth)
  ultimately show ?case by simp
qed

lemma write_bytes_len [simp]: "length (write_bytes buf off bs) = length buf"
  by (induction bs arbitrary: buf off) auto

lemma buffer_write_eq:
  "off + length (concat (map utf8 str)) \<le> length buf \<Longrightarrow>
   buffer_write buf str off =
     take off buf @ concat (map utf8 str) @ drop (off + length (concat (map utf8 str))) buf"
proof (induction str arbitrary: buf off)
  case Nil
  then show ?case by simp
next
  case (Cons c cs)
  let ?u = "utf8 c"
  let ?r = "concat (map utf8 cs)"
  from Cons.prems have fit: "off + length ?u \<le> length buf"
    and rest: "(off + length ?u) + length ?r \<le> length buf" by simp_all
  let ?b = "write_bytes buf off ?u"
  have w: "?b = take off buf @ ?u @ drop (off + length ?u) buf"
    using fit by (rule write_bytes_eq)
  have "buffer_write ?b cs (off + length ?u) =
          take (off + length ?u) ?b @ ?r @ drop (off + length ?u + length ?r) ?b"
    using rest by (intro Cons.IH) simp
  moreover have "take (off + length ?u) ?b = take off buf @ ?u"
    using fit by (subst w) simp
  moreover have "drop (off + length ?u + length ?r) ?b = drop (off + length ?u + length ?r) buf"
    using fit by (subst w) (simp add: ac_simps)
  ultimately show ?case using fit by (simp add: add.assoc)
qed

lemma map_keep_two:
  "\<forall>c \<in> set xs. c \<noteq> a \<and> c \<noteq> b \<Longrightarrow>
   map (\<lambda>c. if c = a \<or> c = b then c else s) xs = replicate (length xs) s"
  by (induction xs) auto

lemma replace_dot_by_star_plain:
  "\<forall>c \<in> set str. c \<noteq> CHR 0x0A \<and> c \<noteq> CHR 0x0D \<Longrightarrow>
   replace_dot_by_star str = replicate (length str) CHR ''*''"
  using map_keep_two[of str "CHR 0x0A" "CHR 0x0D" "CHR ''*''"] replace_dot_by_star_def[of str]
  by (simp only:)

lemma map_of_map_update:
  "k \<in> fst ` set qs \<Longrightarrow>
   map_of (map (\<lambda>(k', y). if k' = k then (k', x) else (k', y)) qs) k = Some x"
proof (induction qs)
  case Nil
  then show ?case by simp
next
  case (Cons q qs)
  obtain k' y where q: "q = (k', y)" by (cases q)
  show ?case
  proof (cases "k' = k")
    case True
    then show ?thesis by (simp add: q)
  next
    case False
    with Cons.prems q have "k \<in> fst ` set qs" by auto
    with Cons.IH False show ?thesis by (simp add: q)
  qed
qed

lemma get_prop_set_prop: "get_prop (set_prop (Obj ps) name x) name = x"
proof (cases "name \<in> fst ` set ps")
  case True
  with map_of_map_update[of name ps x] show ?thesis by (simp add: get_prop_def set_prop_def)
next
  case False
  then have "map_of ps name = None" by (simp add: map_of_eq_None_iff)
  with False show ?thesis by (simp add: get_prop_def set_prop_def map_add_def)
qed

lemma encode_password:
  assumes "get_prop (Obj ps) ''password'' = Str p" and "p \<noteq> []"
    and "length (concat (map utf8 p)) \<le> 32"
  shows "GW_PASSWORD_ENTER_REQ_encode (Obj ps) userInput =
           Inr (set_prop (Obj ps) ''password'' (Str (replace_dot_by_star p)),
                concat (map utf8 p) @ replicate (32 - length (concat (map utf8 p))) 0)"
proof -
  have z: "fill (allocUnsafe (\<lambda>_. 0) 32) 0 = replicate 32 0"
    by (simp add: fill_def allocUnsafe_def map_replicate_const)
  have "buffer_write (replicate 32 0) p 0 =
          concat (map utf8 p) @ replicate (32 - length (concat (map utf8 p))) 0"
    using buffer_write_eq[of 0 p "replicate 32 0"] assms(3) by simp
  then show ?thesis
    using assms(1,2) by (simp add: GW_PASSWORD_ENTER_REQ_encode_def z Let_def)
qed

lemma password_command_encode:
  "cmd_encode GW_PASSWORD_ENTER_REQ = Some GW_PASSWORD_ENTER_REQ_encode"
  by (simp add: GW_PASSWORD_ENTER_REQ_def)

lemma request_prepare_password:
  "request_prepare commands cl GW_PASSWORD_ENTER_REQ params userInput =
     (case GW_PASSWORD_ENTER_REQ_encode params userInput of
        Inl e \<Rightarrow> (cl, Inl e)
      | Inr (params', data) \<Rightarrow>
          if 250 < length data then (cl, Inl (SyntaxError ''data: more than 250 bytes''))
          else (cl\<lparr>cl_requestId := cl_requestId cl + 1\<rparr>,
                Inr \<lparr>r_id = cl_requestId cl + 1, r_cmd = 0x3000,
                     r_cmdName = ''GW_PASSWORD_ENTER_REQ'', r_params = params',
                     r_data = Some data\<rparr>))"
proof -
  have i: "cmd_id GW_PASSWORD_ENTER_REQ = 0x3000" "\<not> cmd_session GW_PASSWORD_ENTER_REQ"
    "cmd_encode GW_PASSWORD_ENTER_REQ = Some GW_PASSWORD_ENTER_REQ_encode"
    by (simp_all add: command_defs)
  show ?thesis
    by (simp add: request_prepare_def i commandNameById_commands endsWith_names rbind_def
        split: sum.splits prod.splits)
qed

text \<open>
  Claim C10, as the code has it: for a non-empty password \<open>p\<close> without a line
  terminator (the dot of \<open>/./g\<close> matches none) whose UTF-8 encoding has at most 32 bytes,
  the encoder returns the encoding of \<open>p\<close> padded with zeros to 32 bytes and replaces
  \<open>params.password\<close> by as many \<open>*\<close> as \<open>p\<close> has characters, before the request record
  is created; the record emitted on the \<open>request\<close> event holds the masked parameters,
  and the encoded password as its data.
\<close>

theorem password_masked_in_request:
  assumes "get_prop (Obj ps) ''password'' = Str p" and "p \<noteq> []"
    and "\<forall>c \<in> set p. c \<noteq> CHR 0x0A \<and> c \<noteq> CHR 0x0D"
    and "length (concat (map utf8 p)) \<le> 32"
    and "req = \<lparr>r_id = cl_requestId cl + 1, r_cmd = 0x3000, r_cmdName = ''GW_PASSWORD_ENTER_REQ'',
                 r_params = set_prop (Obj ps) ''password'' (Str (replicate (length p) CHR ''*'')),
                 r_data = Some (concat (map utf8 p) @ replicate (32 - length (concat (map utf8 p))) 0)\<rparr>"
  shows "request_prepare commands cl GW_PASSWORD_ENTER_REQ (Obj ps) userInput =
           (cl\<lparr>cl_requestId := cl_requestId cl + 1\<rparr>, Inr req)
         \<and> get_prop (r_params req) ''password'' = Str (replicate (length p) CHR ''*'')
         \<and> hd (snd (request_send cl' req)) = EvRequest req"
proof -
  have e: "GW_PASSWORD_ENTER_REQ_encode (Obj ps) userInput =
             Inr (set_prop (Obj ps) ''password'' (Str (replicate (length p) CHR ''*'')),
                  concat (map utf8 p) @ replicate (32 - length (concat (map utf8 p))) 0)"
    using encode_password[OF assms(1,2,4)] replace_dot_by_star_plain[OF assms(3)] by simp
  have "request_prepare commands cl GW_PASSWORD_ENTER_REQ (Obj ps) userInput =
           (cl\<lparr>cl_requestId := cl_requestId cl + 1\<rparr>, Inr req)"
    using assms(4,5) by (simp add: request_prepare_password e)
  moreover have "get_prop (r_params req) ''password'' = Str (replicate (length p) CHR ''*'')"
    by (simp add: assms(5) get_prop_set_prop)
  moreover have "hd (snd (request_send cl' req)) = EvRequest req"
    by (simp add: request_send_def Let_def)
  ultimately show ?thesis by blast
qed


theorem password_masked_in_request_witness:
  "request_prepare commands new_client GW_PASSWORD_ENTER_REQ (Obj [(''password'', Str ''abc'')]) False =
     (new_client\<lparr>cl_requestId := 1\<rparr>,
      Inr \<lparr>r_id = 1, r_cmd = 0x3000, r_cmdName = ''GW_PASSWORD_ENTER_REQ'',
           r_params = Obj [(''password'', Str ''***'')],
           r_data = Some ([0x61, 0x62, 0x63] @ replicate 29 0)\<rparr>)"
proof -
  have u: "utf8 CHR ''a'' = [0x61]" "utf8 CHR ''b'' = [0x62]" "utf8 CHR ''c'' = [0x63]"
    by (simp_all add: utf8_def)
  have g: "get_prop (Obj [(''password'', Str ''abc'')]) ''password'' = Str ''abc''"
    by (simp add: get_prop_def)
  have s: "set_prop (Obj [(''password'', Str ''abc'')]) ''password'' (Str ''***'')
             = Obj [(''password'', Str ''***'')]"
    by (simp add: set_prop_def)
  show ?thesis
    using password_masked_in_request[OF g _ _ _ refl, of new_client False new_client]
    by (simp add: u s new_client_def)
qed

text \<open>
  Claim C10 as stated fails for the password of 32 times \<open>x\<close> and a line feed: the
  buffer holds the first 32 bytes only and no padding, the line feed is not replaced,
  and the request record carries the bytes of the password as its data.
\<close>

theorem password_cleartext_counterexample:
  "snd (request_prepare commands new_client GW_PASSWORD_ENTER_REQ
          (Obj [(''password'', Str (replicate 32 CHR ''x'' @ [CHR 0x0A]))]) False) =
     Inr \<lparr>r_id = 1, r_cmd = 0x3000, r_cmdName = ''GW_PASSWORD_ENTER_REQ'',
          r_params = Obj [(''password'', Str (replicate 32 CHR ''*'' @ [CHR 0x0A]))],
          r_data = Some (replicate 32 0x78)\<rparr>"
proof -
  have e: "GW_PASSWORD_ENTER_REQ_encode (Obj [(''password'', Str (replicate 32 CHR ''x'' @ [CHR 0x0A]))]) False =
             Inr (Obj [(''password'', Str (replicate 32 CHR ''*'' @ [CHR 0x0A]))], replicate 32 0x78)"
    by code_simp
  show ?thesis by (simp add: request_prepare_password e new_client_def)
qed

section \<open>Properties of the request pipeline\<close>

lemma request_prepare_command_send:
  "request_prepare commands cl GW_COMMAND_SEND_REQ (Obj ps) userInput =
     (case GW_COMMAND_SEND_REQ_encode
             (set_prop (Obj ps) ''sessionId'' (Num (int ((cl_sessionId cl + 1) mod 0xFFFF)))) userInput of
        Inl e \<Rightarrow> (cl\<lparr>cl_sessionId := cl_sessionId cl + 1\<rparr>, Inl e)
      | Inr (params', data) \<Rightarrow>
          if 250 < length data
          then (cl\<lparr>cl_sessionId := cl_sessionId cl + 1\<rparr>, Inl (SyntaxError ''data: more than 250 bytes''))
          else (cl\<lparr>cl_sessionId := cl_sessionId cl + 1, cl_requestId := cl_requestId cl + 1\<rparr>,
                Inr \<lparr>r_id = cl_requestId cl + 1, r_cmd = 0x0300,
                     r_cmdName = ''GW_COMMAND_SEND_REQ'', r_params = params',
                     r_data = Some data\<rparr>))"
proof -
  have i: "cmd_id GW_COMMAND_SEND_REQ = 0x0300" "cmd_session GW_COMMAND_SEND_REQ"
    "cmd_encode GW_COMMAND_SEND_REQ = Some GW_COMMAND_SEND_REQ_encode"
    by (simp_all add: command_defs)
  show ?thesis
    by (simp add: request_prepare_def i commandNameById_commands endsWith_names rbind_def
        assign_sessionId_def Let_def split: sum.splits prod.splits)
qed

lemma command_send_params:
  "set_prop (Obj [(''position'', Num 0), (''nodeIds'', Arr [Num 2, Num 3])]) ''sessionId'' v =
     Obj [(''position'', Num 0), (''nodeIds'', Arr [Num 2, Num 3]), (''sessionId'', v)]"
  by (simp add: set_prop_def)

lemma command_send_encoded:
  "GW_COMMAND_SEND_REQ_encode
     (Obj [(''position'', Num 0), (''nodeIds'', Arr [Num 2, Num 3]), (''sessionId'', Num 0)]) False =
   Inr (Obj [(''position'', Num 0), (''nodeIds'', Arr [Num 2, Num 3]), (''sessionId'', Num 0)],
        [0x00, 0x00, 0x01, 0x03] @ replicate 37 0 @ [0x02, 0x02, 0x03] @ replicate 22 0)"
  "GW_COMMAND_SEND_REQ_encode
     (Obj [(''position'', Num 0), (''nodeIds'', Arr [Num 2, Num 3]), (''sessionId'', Num 1)]) False =
   Inr (Obj [(''position'', Num 0), (''nodeIds'', Arr [Num 2, Num 3]), (''sessionId'', Num 1)],
        [0x00, 0x01, 0x01, 0x03] @ replicate 37 0 @ [0x02, 0x02, 0x03] @ replicate 22 0)"
  "GW_COMMAND_SEND_REQ_encode
     (Obj [(''position'', Num 0), (''nodeIds'', Arr [Num 2, Num 3]), (''sessionId'', Num 0x42)]) False =
   Inr (Obj [(''position'', Num 0), (''nodeIds'', Arr [Num 2, Num 3]), (''sessionId'', Num 0x42)],
        [0x00, 0x42, 0x01, 0x03] @ replicate 37 0 @ [0x02, 0x02, 0x03] @ replicate 22 0)"
  by code_simp+

text \<open>
  Claim C4: the session id of a request is the previous one plus 1 modulo \<open>0x10000\<close>.
  The source takes the counter modulo \<open>0xFFFF\<close>: after the session id \<open>0xFFFE\<close> the next
  \<open>GW_COMMAND_SEND_REQ\<close> carries the session id 0, not \<open>0xFFFF\<close>, and when the counter
  is \<open>0xFFFF\<close> the next one carries 1, not 0.
\<close>

theorem session_id_modulo_0xFFFF:
  "request_prepare commands (new_client\<lparr>cl_sessionId := 0xFFFE\<rparr>) GW_COMMAND_SEND_REQ
     (Obj [(''position'', Num 0), (''nodeIds'', Arr [Num 2, Num 3])]) False =
   (new_client\<lparr>cl_sessionId := 0xFFFF, cl_requestId := 1\<rparr>,
    Inr \<lparr>r_id = 1, r_cmd = 0x0300, r_cmdName = ''GW_COMMAND_SEND_REQ'',
         r_params = Obj [(''position'', Num 0), (''nodeIds'', Arr [Num 2, Num 3]), (''sessionId'', Num 0)],
         r_data = Some ([0x00, 0x00, 0x01, 0x03] @ replicate 37 0 @ [0x02, 0x02, 0x03] @ replicate 22 0)\<rparr>)
   \<and> request_prepare commands (new_client\<lparr>cl_sessionId := 0xFFFF\<rparr>) GW_COMMAND_SEND_REQ
     (Obj [(''position'', Num 0), (''nodeIds'', Arr [Num 2, Num 3])]) False =
   (new_client\<lparr>cl_sessionId := 0x10000, cl_requestId := 1\<rparr>,
    Inr \<lparr>r_id = 1, r_cmd = 0x0300, r_cmdName = ''GW_COMMAND_SEND_REQ'',
         r_params = Obj [(''position'', Num 0), (''nodeIds'', Arr [Num 2, Num 3]), (''sessionId'', Num 1)],
         r_data = Some ([0x00, 0x01, 0x01, 0x03] @ replicate 37 0 @ [0x02, 0x02, 0x03] @ replicate 22 0)\<rparr>)"
  by (simp add: request_prepare_command_send command_send_params command_send_encoded new_client_def)

theorem session_id_modulo_0xFFFF_witness:
  "get_prop (case snd (request_prepare commands (new_client\<lparr>cl_sessionId := 0xFFFE\<rparr>)
                         GW_COMMAND_SEND_REQ
                         (Obj [(''position'', Num 0), (''nodeIds'', Arr [Num 2, Num 3])]) False) of
               Inr req \<Rightarrow> r_params req | Inl e \<Rightarrow> Undefined) ''sessionId'' = Num 0"
  using session_id_modulo_0xFFFF by (simp add: get_prop_def)

text \<open>With the counter at \<open>0x0041\<close> the request carries the session id \<open>0x0042\<close>.\<close>

lemma session_id_after_0x0041:
  "request_prepare commands (new_client\<lparr>cl_sessionId := 0x41\<rparr>) GW_COMMAND_SEND_REQ
     (Obj [(''position'', Num 0), (''nodeIds'', Arr [Num 2, Num 3])]) False =
   (new_client\<lparr>cl_sessionId := 0x42, cl_requestId := 1\<rparr>,
    Inr \<lparr>r_id = 1, r_cmd = 0x0300, r_cmdName = ''GW_COMMAND_SEND_REQ'',
         r_params = Obj [(''position'', Num 0), (''nodeIds'', Arr [Num 2, Num 3]), (''sessionId'', Num 0x42)],
         r_data = Some ([0x00, 0x42, 0x01, 0x03] @ replicate 37 0 @ [0x02, 0x02, 0x03] @ replicate 22 0)\<rparr>)"
  by (simp add: request_prepare_command_send command_send_params command_send_encoded new_client_def)

lemma systemtable_entry_short:
  "length data \<le> 17 \<Longrightarrow> 11 * i + 1 < length data \<Longrightarrow> systemtable_entry data i = Inl RangeError"
  by (simp add: systemtable_entry_def readUInt8_def readUInt16BE_def)

lemma systemtable_one_entry:
  assumes "length data = 13" and "data ! 0 = 1"
  shows "GW_CS_GET_SYSTEMTABLE_DATA_NTF_decode data session = (session, Inl RangeError)"
proof -
  have n: "readUInt8 data 0 = Inr (Suc 0)" using assms by (simp add: readUInt8_def)
  have c: "checkData data 13 = Inr ()" using assms by (simp add: checkData_def)
  have e: "systemtable_entry data 0 = Inl RangeError"
    using assms by (intro systemtable_entry_short) simp_all
  have l: "systemtable_loop data (Suc 0) 0 [] session = (session, Inl RangeError)"
    by (subst systemtable_loop.simps) (simp add: e)
  show ?thesis
    by (simp add: GW_CS_GET_SYSTEMTABLE_DATA_NTF_decode_def n c l)
qed

text \<open>
  Claim C7: the decoder of \<open>GW_CS_GET_SYSTEMTABLE_DATA_NTF\<close> reads the actuator type of
  entry \<open>i\<close> at offset \<open>11 * i + 5\<close> and appends every entry to the result.  The source
  reads it at \<open>11 * 1 + 5\<close>, that is 16, for every entry: a notification with one entry
  has 13 bytes, so the read is out of range and the decoder throws before it appends
  the entry; in a notification with two entries the first entry gets the actuator
  type of the second.
\<close>

theorem systemtable_actuatorType_offset_16:
  "GW_CS_GET_SYSTEMTABLE_DATA_NTF_decode
     [1,  5, 0xAA, 0xBB, 0xCC, 0x01, 0x01, 0x00, 0x01, 0, 0, 0,  0] session = (session, Inl RangeError)
   \<and> snd (GW_CS_GET_SYSTEMTABLE_DATA_NTF_decode
     [2,  5, 0xAA, 0xBB, 0xCC, 0x00, 0x40, 0x00, 0x01, 0, 0, 0,
          6, 0xAA, 0xBB, 0xCD, 0x01, 0x01, 0x00, 0x02, 0, 0, 0,  1]
     (Some ((VeluxSession True
               \<lparr>r_id = 1, r_cmd = 0x0100, r_cmdName = ''GW_CS_GET_SYSTEMTABLE_DATA_REQ'',
                r_params = Obj [], r_data = None\<rparr>)\<lparr>s_result := Arr []\<rparr>))) =
     Inr (Arr [Obj [(''nodeId'', Num 5), (''actuatorType'', Num 0x0101),
                    (''powerState'', decodePowerState 0), (''manufacturer'', Str ''VELUX''),
                    (''model'', Str ''Window Opener with Rain Sensor'')],
               Obj [(''nodeId'', Num 6), (''actuatorType'', Num 0x0101),
                    (''powerState'', decodePowerState 0), (''manufacturer'', Str ''Somfy''),
                    (''model'', Str ''Window Opener with Rain Sensor'')]])"
proof -
  have a: "GW_CS_GET_SYSTEMTABLE_DATA_NTF_decode
     [1,  5, 0xAA, 0xBB, 0xCC, 0x01, 0x01, 0x00, 0x01, 0, 0, 0,  0] session = (session, Inl RangeError)"
    by (rule systemtable_one_entry) simp_all
  have b: "snd (GW_CS_GET_SYSTEMTABLE_DATA_NTF_decode
     [2,  5, 0xAA, 0xBB, 0xCC, 0x00, 0x40, 0x00, 0x01, 0, 0, 0,
          6, 0xAA, 0xBB, 0xCD, 0x01, 0x01, 0x00, 0x02, 0, 0, 0,  1]
     (Some ((VeluxSession True
               \<lparr>r_id = 1, r_cmd = 0x0100, r_cmdName = ''GW_CS_GET_SYSTEMTABLE_DATA_REQ'',
                r_params = Obj [], r_data = None\<rparr>)\<lparr>s_result := Arr []\<rparr>))) =
     Inr (Arr [Obj [(''nodeId'', Num 5), (''actuatorType'', Num 0x0101),
                    (''powerState'', decodePowerState 0), (''manufacturer'', Str ''VELUX''),
                    (''model'', Str ''Window Opener with Rain Sensor'')],
               Obj [(''nodeId'', Num 6), (''actuatorType'', Num 0x0101),
                    (''powerState'', decodePowerState 0), (''manufacturer'', Str ''Somfy''),
                    (''model'', Str ''Window Opener with Rain Sensor'')]])"
    by code_simp
  from a b show ?thesis by (rule conjI)
qed

theorem systemtable_actuatorType_offset_16_witness:
  "snd (GW_CS_GET_SYSTEMTABLE_DATA_NTF_decode
     [1,  5, 0xAA, 0xBB, 0xCC, 0x01, 0x01, 0x00, 0x01, 0, 0, 0,  0] None) = Inl RangeError"
  using systemtable_actuatorType_offset_16[of None] by simp

section \<open>Properties of the dispatcher\<close>

text \<open>What \<open>#receive\<close> does after the two checks depends on the frame without its last byte only.\<close>

lemma receive_dispatch_last:
  assumes "5 \<le> length buf"
  shows "receive_dispatch cmds cl (butlast buf @ [c]) = receive_dispatch cmds cl buf"
proof -
  from assms obtain b where b: "buf = butlast buf @ [b]"
    by (metis append_butlast_last_id length_0_conv not_numeral_le_zero)
  have l: "5 \<le> length (butlast buf) + 1" using assms by simp
  have r: "readUInt16BE (butlast buf @ [x]) 2 = readUInt16BE (butlast buf @ [y]) 2" for x y
    using l by (simp add: readUInt16BE_def nth_append)
  have s: "subarray_to_last (butlast buf @ [x]) 4 = drop 4 (butlast buf)" for x
    by (simp add: subarray_to_last_def)
  have "receive_dispatch cmds cl (butlast buf @ [c]) = receive_dispatch cmds cl (butlast buf @ [b])"
    unfolding receive_dispatch_def s r[of c b] ..
  with b show ?thesis by simp
qed

text \<open>
  Claim C3: when the last byte of a received frame differs from the XOR of the bytes
  before it, \<open>#receive\<close> emits a checksum error and goes on: the state it leaves, the
  events it emits after the error and its result are those of the same frame with
  the right checksum, so the command id is extracted, decoded and dispatched.
\<close>

theorem receive_checksum_mismatch_continues:
  assumes "5 \<le> length buf" and "buf ! 0 = 0" and "last buf \<noteq> xor_bytes (butlast buf)"
  shows "receive cmds cl buf =
           (case receive cmds cl (butlast buf @ [xor_bytes (butlast buf)]) of
              (cl', evs, r) \<Rightarrow>
                (cl', EvData buf # EvError (InvalidChecksum (last buf) (xor_bytes (butlast buf)) buf) None
                      # tl evs, r))"
proof -
  let ?good = "butlast buf @ [xor_bytes (butlast buf)]"
  have ne: "buf \<noteq> []" using assms(1) by auto
  have g0: "?good \<noteq> []" "?good ! 0 = 0" using assms(1,2) by (simp_all add: nth_append nth_butlast)
  have gl: "take (length ?good - 1) ?good = butlast buf" "?good ! (length ?good - 1) = xor_bytes (butlast buf)"
    by (simp_all add: nth_append)
  have bl: "take (length buf - 1) buf = butlast buf" "buf ! (length buf - 1) = last buf"
    using ne by (simp_all add: butlast_conv_take last_conv_nth)
  obtain cl' evs r where d: "receive_dispatch cmds cl buf = (cl', evs, r)"
    by (cases "receive_dispatch cmds cl buf") auto
  then have d': "receive_dispatch cmds cl ?good = (cl', evs, r)"
    using receive_dispatch_last[OF assms(1)] by simp
  have 1: "receive cmds cl buf =
      (cl', EvData buf # EvError (InvalidChecksum (last buf) (xor_bytes (butlast buf)) buf) None # evs, r)"
    using ne assms(2,3) by (simp only: receive_def bl d Let_def) simp
  have 2: "receive cmds cl ?good = (cl', EvData ?good # evs, r)"
    using g0 by (simp only: receive_def gl d' Let_def) simp
  show ?thesis by (simp only: 1 2) simp
qed

text \<open>The run of the version request: the confirmation, also with a wrong checksum, settles the session.\<close>

lemma version_key: "sessionKey version_request = ''8''"
  by code_simp

lemma version_client_eq:
  "version_client =
     \<lparr>cl_requestId = 1, cl_sessionId = 0,
      cl_sessions = [''8'' \<mapsto> once (VeluxSession False version_request) ''cfm''], cl_busy = True\<rparr>"
  by (simp add: version_client_def request_send_def request_register_def update_session_def
      version_key new_client_def Let_def command_defs)

lemma version_decode_example:
  "GW_GET_VERSION_CFM_decode [0, 2, 0, 0, 71, 0, 6, 14, 3] = Inr version_payload"
  by code_simp

lemma version_dispatch:
  "receive_dispatch commands version_client [0, 12, 0, 9, 0, 2, 0, 0, 71, 0, 6, 14, 3, c] =
     (version_client\<lparr>cl_sessions := [''8'' \<mapsto>
         (VeluxSession False version_request)\<lparr>s_result := version_payload, s_once_cfm := False,
            s_settled := Some (Resolved version_payload)\<rparr>]\<rparr>,
      [EvNotification 9 ''GW_GET_VERSION_CFM'' [0, 2, 0, 0, 71, 0, 6, 14, 3] version_payload
         (Some version_request)], None)"
proof -
  have r: "readUInt16BE [0, 12, 0, 9, 0, 2, 0, 0, 71, 0, 6, 14, 3, c] 2 = Inr 9"
    by (simp add: readUInt16BE_def)
  have s: "subarray_to_last [0, 12, 0, 9, 0, 2, 0, 0, 71, 0, 6, 14, 3, c] 4 = [0, 2, 0, 0, 71, 0, 6, 14, 3]"
    by (simp add: subarray_to_last_def)
  have c: "cmd_req GW_GET_VERSION_CFM = Some 8"
    "cmd_decode GW_GET_VERSION_CFM = Some (pure_decoder GW_GET_VERSION_CFM_decode)"
    "cmd_id GW_SESSION_FINISHED_NTF = 0x0304"
    by (simp_all add: command_defs)
  have k: "num_toString (int 8) = ''8''" "num_toString 8 = ''8''" by code_simp+
  have g: "get_prop version_payload ''sessionId'' = Undefined"
    by (simp add: get_prop_def version_payload_def)
  have d: "receive_decode version_client GW_GET_VERSION_CFM [0, 2, 0, 0, 71, 0, 6, 14, 3] =
      (version_client, [], Inr version_payload)"
    by (simp add: receive_decode_def c k version_client_eq pure_decoder_def version_decode_example)
  have t: "receive_session version_client (Some ''8'') version_payload = (version_client, Some ''8'', Inr version_payload)"
    by (simp add: receive_session_def g)
  have e: "receive_emit version_client 9 ''GW_GET_VERSION_CFM'' [0, 2, 0, 0, 71, 0, 6, 14, 3] version_payload (Some ''8'') =
     (version_client\<lparr>cl_sessions := [''8'' \<mapsto>
         (VeluxSession False version_request)\<lparr>s_result := version_payload, s_once_cfm := False,
            s_settled := Some (Resolved version_payload)\<rparr>]\<rparr>,
      [EvNotification 9 ''GW_GET_VERSION_CFM'' [0, 2, 0, 0, 71, 0, 6, 14, 3] version_payload
         (Some version_request)], None)"
    by (simp add: receive_emit_def endsWith_names c emit_to_def session_emit_def version_client_eq
        once_def VeluxSession_def rbind_def Let_def)
  show ?thesis
    by (simp add: receive_dispatch_def r s commandNameById_commands command_named_commands
        endsWith_names c k d t e)
qed

theorem receive_checksum_mismatch_continues_witness:
  "receive commands version_client [0, 12, 0, 9, 0, 2, 0, 0, 71, 0, 6, 14, 3, 0] =
     (version_client\<lparr>cl_sessions := [''8'' \<mapsto>
         (VeluxSession False version_request)\<lparr>s_result := version_payload, s_once_cfm := False,
            s_settled := Some (Resolved version_payload)\<rparr>]\<rparr>,
      [EvData [0, 12, 0, 9, 0, 2, 0, 0, 71, 0, 6, 14, 3, 0],
       EvError (InvalidChecksum 0 0x4B [0, 12, 0, 9, 0, 2, 0, 0, 71, 0, 6, 14, 3, 0]) None,
       EvNotification 9 ''GW_GET_VERSION_CFM'' [0, 2, 0, 0, 71, 0, 6, 14, 3] version_payload
         (Some version_request)], None)"
proof -
  have x: "xor_bytes [0, 12, 0, 9, 0, 2, 0, 0, 71, 0, 6, 14, 3] = 0x4B"
    by (simp add: xor_bytes_def)
  have g: "receive commands version_client [0, 12, 0, 9, 0, 2, 0, 0, 71, 0, 6, 14, 3, 0x4B] =
     (version_client\<lparr>cl_sessions := [''8'' \<mapsto>
         (VeluxSession False version_request)\<lparr>s_result := version_payload, s_once_cfm := False,
            s_settled := Some (Resolved version_payload)\<rparr>]\<rparr>,
      [EvData [0, 12, 0, 9, 0, 2, 0, 0, 71, 0, 6, 14, 3, 0x4B],
       EvNotification 9 ''GW_GET_VERSION_CFM'' [0, 2, 0, 0, 71, 0, 6, 14, 3] version_payload
         (Some version_request)], None)"
    by (simp add: receive_def version_dispatch x)
  show ?thesis
    using receive_checksum_mismatch_continues[of "[0, 12, 0, 9, 0, 2, 0, 0, 71, 0, 6, 14, 3, 0]"
        commands version_client]
    by (simp add: x g)
qed

text \<open>The run of the system table request, step by step.\<close>

lemmas receive_eval =
  receive_def receive_dispatch_def receive_decode_def receive_session_def receive_emit_def
  emit_to_def session_emit_def readUInt16BE_def readUInt8_def subarray_to_last_def
  commandNameById_commands command_named_commands endsWith_def command_defs pure_decoder_def
  xor_bytes_def get_prop_def rbind_def Let_def client_with_def once_def waitForDone_def
  session_emit_done_def checkData_def

lemma k256: "num_toString 256 = ''256''" "num_toString (int 256) = ''256''" by code_simp+

lemma more_names:
  "commandNameById commands 0x0101 = Some ''GW_CS_GET_SYSTEMTABLE_DATA_CFM''"
  "commandNameById commands 0x0102 = Some ''GW_CS_GET_SYSTEMTABLE_DATA_NTF''"
  by (simp_all add: commandNameById_commands)

lemma step_prepare:
  "request_prepare commands new_client GW_CS_GET_SYSTEMTABLE_DATA_REQ (Obj []) False =
     (new_client\<lparr>cl_requestId := 1\<rparr>, Inr systemtable_request)"
  by (simp add: request_prepare_def commandNameById_commands endsWith_def command_defs
      systemtable_request_def new_client_def)

lemma systemtable_key: "sessionKey systemtable_request = ''256''"
  by (simp add: sessionKey_def systemtable_request_def get_prop_def k256)

lemma step_send:
  "request_send (request_register (new_client\<lparr>cl_requestId := 1\<rparr>) GW_CS_GET_SYSTEMTABLE_DATA_REQ systemtable_request)
     systemtable_request =
   (client_with (once systemtable_session ''cfm'') True,
    [EvRequest systemtable_request, EvSend [0, 3, 1, 0, 2], EvWrite [0xC0, 0, 3, 1, 0, 2, 0xC0]])"
proof -
  have f: "frame 0x0100 None = [0, 3, 1, 0, 2]" by code_simp
  have e: "encode [0, 3, 1, 0, 2] = [0xC0, 0, 3, 1, 0, 2, 0xC0]" by code_simp
  show ?thesis
    by (simp add: request_send_def request_register_def update_session_def systemtable_key
        new_client_def client_with_def systemtable_session_def command_defs Let_def f e
        systemtable_request_def[THEN arg_cong, of r_cmd] systemtable_request_def[THEN arg_cong, of r_data])
qed

lemma step_cfm_frame:
  "receive commands (client_with (once systemtable_session ''cfm'') True) [0, 3, 1, 1, 3] =
     (client_with (systemtable_session\<lparr>s_result := Arr [], s_once_cfm := False,
                     s_settled := Some (Resolved Undefined)\<rparr>) True,
      [EvData [0, 3, 1, 1, 3],
       EvNotification 0x0101 ''GW_CS_GET_SYSTEMTABLE_DATA_CFM'' [] Undefined (Some systemtable_request)],
      None)"
  by (simp add: receive_eval k256 systemtable_session_def VeluxSession_def)

lemma step_cfm:
  "request_cfm (client_with (systemtable_session\<lparr>s_result := Arr [], s_once_cfm := False,
                     s_settled := Some (Resolved Undefined)\<rparr>) True)
      GW_CS_GET_SYSTEMTABLE_DATA_REQ systemtable_request (Resolved Undefined) =
   (client_with (systemtable_collecting []) False, [], Pending)"
  by (simp add: request_cfm_def update_session_def systemtable_key client_with_def command_defs
      systemtable_collecting_def once_def waitForDone_def systemtable_session_def VeluxSession_def)

lemma decode_ntf_2:
  "GW_CS_GET_SYSTEMTABLE_DATA_NTF_decode systemtable_ntf_2 (Some (systemtable_collecting [])) =
     (Some (systemtable_collecting [systemtable_entry_5, systemtable_entry_6]),
      Inr (Arr [systemtable_entry_5, systemtable_entry_6]))"
  by code_simp

lemma decode_ntf_1:
  "GW_CS_GET_SYSTEMTABLE_DATA_NTF_decode systemtable_ntf_1 (Some s) = (Some s, Inl RangeError)"
  by (rule systemtable_one_entry) (simp_all add: systemtable_ntf_1_def)

lemma receive_decode_with:
  assumes "cmd_req command = Some 0x0100" and "cmd_decode command = Some dec"
    and "dec data (Some s) = (Some s', Inr payload)"
  shows "receive_decode (client_with s b) command data = (client_with s' b, [], Inr payload)"
  using assms by (simp add: receive_decode_def k256 client_with_def)

lemma receive_decode_with_error:
  assumes "cmd_req command = Some 0x0100" and "cmd_decode command = Some dec"
    and "dec data (Some s) = (Some s', Inl e)" and "s_awaiting s' \<noteq> None"
  shows "receive_decode (client_with s b) command data =
           (client_with (s'\<lparr>s_awaiting := None, s_settled := Some (Rejected e)\<rparr>) b, [], Inr Undefined)"
  using assms by (simp add: receive_decode_def k256 client_with_def emit_to_def session_emit_def rbind_def)

lemma receive_session_plain:
  "get_prop payload ''sessionId'' = Undefined \<Longrightarrow> receive_session cl key payload = (cl, key, Inr payload)"
  by (simp add: receive_session_def)

lemma receive_emit_ntf:
  assumes "\<not> endsWith cmdName ''_CFM''" and "cmd \<noteq> 0x0304"
  shows "receive_emit (client_with s b) cmd cmdName data payload (Some ''256'') =
           (client_with s b, [EvNotification cmd cmdName data payload (Some (s_request s))], None)"
  using assms by (simp add: receive_emit_def client_with_def command_defs)

lemma systemtable_ntf_command:
  "cmd_req GW_CS_GET_SYSTEMTABLE_DATA_NTF = Some 0x0100"
  "cmd_decode GW_CS_GET_SYSTEMTABLE_DATA_NTF = Some GW_CS_GET_SYSTEMTABLE_DATA_NTF_decode"
  "\<not> endsWith ''GW_CS_GET_SYSTEMTABLE_DATA_NTF'' ''_CFM''"
  "endsWith ''GW_CS_GET_SYSTEMTABLE_DATA_NTF'' ''_NTF''"
  by (simp_all add: command_defs endsWith_def)

lemma systemtable_collecting_sel:
  "s_request (systemtable_collecting es) = systemtable_request"
  "s_awaiting (systemtable_collecting es) = Some ''done''"
  by (simp_all add: systemtable_collecting_def systemtable_session_def VeluxSession_def)

lemma step_ntf_2:
  "receive commands (client_with (systemtable_collecting []) False) ([0, 27, 1, 2] @ systemtable_ntf_2 @ [90]) =
     (client_with (systemtable_collecting [systemtable_entry_5, systemtable_entry_6]) False,
      [EvData ([0, 27, 1, 2] @ systemtable_ntf_2 @ [90]),
       EvNotification 0x0102 ''GW_CS_GET_SYSTEMTABLE_DATA_NTF'' systemtable_ntf_2
         (Arr [systemtable_entry_5, systemtable_entry_6]) (Some systemtable_request)],
      None)"
proof -
  have x: "xor_bytes (take (length ([0, 27, 1, 2] @ systemtable_ntf_2 @ [90]) - 1) ([0, 27, 1, 2] @ systemtable_ntf_2 @ [90])) = 90"
    "([0, 27, 1, 2] @ systemtable_ntf_2 @ [90]) ! (length ([0, 27, 1, 2] @ systemtable_ntf_2 @ [90]) - 1) = 90"
    by code_simp+
  have r: "readUInt16BE ([0, 27, 1, 2] @ systemtable_ntf_2 @ [90]) 2 = Inr 0x0102"
    by code_simp
  have s: "subarray_to_last ([0, 27, 1, 2] @ systemtable_ntf_2 @ [90]) 4 = systemtable_ntf_2"
    by (simp add: subarray_to_last_def)
  have d: "receive_dispatch commands (client_with (systemtable_collecting []) False) ([0, 27, 1, 2] @ systemtable_ntf_2 @ [90]) =
     (client_with (systemtable_collecting [systemtable_entry_5, systemtable_entry_6]) False,
      [EvNotification 0x0102 ''GW_CS_GET_SYSTEMTABLE_DATA_NTF'' systemtable_ntf_2
         (Arr [systemtable_entry_5, systemtable_entry_6]) (Some systemtable_request)],
      None)"
    unfolding receive_dispatch_def r s
    by (simp add: commandNameById_commands command_named_commands systemtable_ntf_command k256
        receive_decode_with[OF systemtable_ntf_command(1,2) decode_ntf_2]
        receive_session_plain get_prop_def receive_emit_ntf systemtable_collecting_sel)
  have n: "[0, 27, 1, 2] @ systemtable_ntf_2 @ [90] \<noteq> []" "([0, 27, 1, 2] @ systemtable_ntf_2 @ [90]) ! 0 = 0"
    by simp_all
  show ?thesis
    unfolding receive_def Let_def x d using n by (simp only: if_False simp_thms) simp
qed

lemma step_ntf_1:
  "receive commands (client_with (systemtable_collecting es) False) ([0, 16, 1, 2] @ systemtable_ntf_1 @ [75]) =
     (client_with ((systemtable_collecting es)\<lparr>s_awaiting := None, s_settled := Some (Rejected RangeError)\<rparr>) False,
      [EvData ([0, 16, 1, 2] @ systemtable_ntf_1 @ [75]),
       EvNotification 0x0102 ''GW_CS_GET_SYSTEMTABLE_DATA_NTF'' systemtable_ntf_1 Undefined
         (Some systemtable_request)],
      None)"
proof -
  have x: "xor_bytes (take (length ([0, 16, 1, 2] @ systemtable_ntf_1 @ [75]) - 1) ([0, 16, 1, 2] @ systemtable_ntf_1 @ [75])) = 75"
    "([0, 16, 1, 2] @ systemtable_ntf_1 @ [75]) ! (length ([0, 16, 1, 2] @ systemtable_ntf_1 @ [75]) - 1) = 75"
    by code_simp+
  have r: "readUInt16BE ([0, 16, 1, 2] @ systemtable_ntf_1 @ [75]) 2 = Inr 0x0102"
    by code_simp
  have s: "subarray_to_last ([0, 16, 1, 2] @ systemtable_ntf_1 @ [75]) 4 = systemtable_ntf_1"
    by (simp add: subarray_to_last_def)
  have sel: "s_request ((systemtable_collecting es)\<lparr>s_awaiting := None, s_settled := Some (Rejected RangeError)\<rparr>) = systemtable_request"
    by (simp add: systemtable_collecting_sel)
  have d: "receive_dispatch commands (client_with (systemtable_collecting es) False) ([0, 16, 1, 2] @ systemtable_ntf_1 @ [75]) =
     (client_with ((systemtable_collecting es)\<lparr>s_awaiting := None, s_settled := Some (Rejected RangeError)\<rparr>) False,
      [EvNotification 0x0102 ''GW_CS_GET_SYSTEMTABLE_DATA_NTF'' systemtable_ntf_1 Undefined
         (Some systemtable_request)],
      None)"
    unfolding receive_dispatch_def r s
    by (simp add: commandNameById_commands command_named_commands systemtable_ntf_command k256
        receive_decode_with_error[OF systemtable_ntf_command(1,2) decode_ntf_1]
        receive_session_plain get_prop_def receive_emit_ntf systemtable_collecting_sel sel)
  have n: "[0, 16, 1, 2] @ systemtable_ntf_1 @ [75] \<noteq> []" "([0, 16, 1, 2] @ systemtable_ntf_1 @ [75]) ! 0 = 0"
    by simp_all
  show ?thesis
    unfolding receive_def Let_def x d using n by (simp only: if_False simp_thms) simp
qed

lemma step_done:
  "request_done (client_with s False) systemtable_request (Rejected e) =
     (client_with s False, [EvError (MessageOf e) (Some systemtable_request)], Return Undefined)"
  by (simp add: request_done_def request_catch_def systemtable_request_def command_defs)

text \<open>
  Claim C6: when a request fails, its entry of the session table is removed, and the
  error is emitted on the \<open>error\<close> event while \<open>request\<close> returns \<open>undefined\<close>, or thrown
  for \<open>GW_PASSWORD_ENTER_REQ\<close>.  When the wait for the confirmation is rejected the
  source does so.  When the wait for the end of the stream is rejected (a timeout of
  the stream, or an error of a decoder of a notification), it emits or throws the
  error as well, but leaves the client, and so the entry of the session table, as it
  was.
\<close>

theorem failed_stream_keeps_session:
  "request_done cl req (Rejected e) =
     (cl, if r_cmd req = 0x3000 then [] else [EvError (MessageOf e) (Some req)],
          if r_cmd req = 0x3000 then Throw e else Return Undefined)
   \<and> request_cfm cl command req (Rejected e) =
     (cl\<lparr>cl_busy := False, cl_sessions := (cl_sessions cl)(sessionKey req := None)\<rparr>,
      if r_cmd req = 0x3000 then [] else [EvError (MessageOf e) (Some req)],
      if r_cmd req = 0x3000 then Throw e else Return Undefined)"
  by (simp add: request_done_def request_cfm_def request_catch_def command_defs)

theorem failed_stream_keeps_session_witness:
  "cl_sessions (fst (request_done
      (client_with ((systemtable_collecting [systemtable_entry_5, systemtable_entry_6])
                      \<lparr>s_awaiting := None, s_settled := Some (Rejected RangeError)\<rparr>) False)
      systemtable_request (Rejected RangeError))) (sessionKey systemtable_request) =
   Some ((systemtable_collecting [systemtable_entry_5, systemtable_entry_6])
           \<lparr>s_awaiting := None, s_settled := Some (Rejected RangeError)\<rparr>)"
  using failed_stream_keeps_session[of
      "client_with ((systemtable_collecting [systemtable_entry_5, systemtable_entry_6])
                      \<lparr>s_awaiting := None, s_settled := Some (Rejected RangeError)\<rparr>) False"
      systemtable_request RangeError]
  by (simp add: client_with_def systemtable_key)

section \<open>Concurrent calls of request\<close>



subsection \<open>What the parts of request and #receive do to the table and the flag\<close>

lemma session_emit_request:
  "session_emit s ev = Inr s' \<Longrightarrow> s_request s' = s_request s"
  by (cases ev) (auto simp: session_emit_def Let_def split: if_splits)

lemma owner_upd_same:
  "cl_sessions cl k = Some s \<Longrightarrow> s_request s' = s_request s \<Longrightarrow>
   owner (cl\<lparr>cl_sessions := (cl_sessions cl)(k \<mapsto> s')\<rparr>) = owner cl"
  by (rule ext) (simp add: owner_def)

lemma emit_to_keeps:
  assumes "emit_to cl key ev = Inr cl'"
  shows "owner cl' = owner cl \<and> cl_busy cl' = cl_busy cl \<and> cl_requestId cl' = cl_requestId cl"
proof (cases key)
  case None
  with assms show ?thesis by (simp add: emit_to_def)
next
  case (Some k)
  show ?thesis
  proof (cases "cl_sessions cl k")
    case None
    with Some assms show ?thesis by (simp add: emit_to_def)
  next
    case (Some s)
    with \<open>key = Some k\<close> assms obtain s' where e: "session_emit s ev = Inr s'"
      and c: "cl' = cl\<lparr>cl_sessions := (cl_sessions cl)(k \<mapsto> s')\<rparr>"
      by (cases "session_emit s ev") (auto simp: emit_to_def rbind_def)
    from owner_upd_same[OF Some session_emit_request[OF e]] c show ?thesis by simp
  qed
qed

lemma receive_decode_keeps:
  assumes "receive_decode cl command data = (cl', evs, r)"
    and "\<And>dec. cmd_decode command = Some dec \<Longrightarrow> keeps_request dec"
  shows "owner cl' = owner cl \<and> cl_busy cl' = cl_busy cl \<and> cl_requestId cl' = cl_requestId cl"
proof (cases "cmd_decode command")
  case None
  with assms(1) show ?thesis by (simp add: receive_decode_def Let_def)
next
  case (Some dec)
  define key where "key = map_option (\<lambda>req. num_toString (int req)) (cmd_req command)"
  define session where "session = (case key of None \<Rightarrow> None | Some k \<Rightarrow> cl_sessions cl k)"
  obtain session' x where d: "dec data session = (session', x)" by (cases "dec data session")
  define cl1 where "cl1 = (case (key, session') of
                (Some k, Some s) \<Rightarrow> cl\<lparr>cl_sessions := (cl_sessions cl)(k \<mapsto> s)\<rparr> | _ \<Rightarrow> cl)"
  from assms(2)[OF Some] d have m: "map_option s_request session' = map_option s_request session"
    by (auto simp: keeps_request_def)
  have k1: "owner cl1 = owner cl \<and> cl_busy cl1 = cl_busy cl \<and> cl_requestId cl1 = cl_requestId cl"
  proof (cases key)
    case None
    then show ?thesis by (simp add: cl1_def)
  next
    case key: (Some k)
    show ?thesis
    proof (cases session')
      case None
      with key show ?thesis by (simp add: cl1_def)
    next
      case s': (Some s')
      with m key obtain s where s: "cl_sessions cl k = Some s" "s_request s' = s_request s"
        by (cases "cl_sessions cl k") (auto simp: session_def)
      from owner_upd_same[OF s] key s' show ?thesis by (simp add: cl1_def)
    qed
  qed
  have r: "receive_decode cl command data =
      (case x of
         Inr payload \<Rightarrow> (cl1, [], Inr payload)
       | Inl error \<Rightarrow>
           (if session' \<noteq> None then
              (case emit_to cl1 key (Err error) of
                 Inl e \<Rightarrow> (cl1, [], Inl e)
               | Inr cl2 \<Rightarrow> (cl2, [], Inr Undefined))
            else (cl1, [EvError (MessageOf error) None], Inr Undefined)))"
    using Some d by (simp add: receive_decode_def Let_def key_def[symmetric] session_def[symmetric] cl1_def
        split: option.splits sum.splits)
  show ?thesis
  proof (cases x)
    case (Inr payload)
    with r assms(1) k1 show ?thesis by simp
  next
    case (Inl error)
    show ?thesis
    proof (cases "session' \<noteq> None")
      case False
      with r Inl assms(1) k1 show ?thesis by simp
    next
      case True
      show ?thesis
      proof (cases "emit_to cl1 key (Err error)")
        case e: (Inl e)
        with r Inl True assms(1) k1 show ?thesis by simp
      next
        case e: (Inr cl2)
        from emit_to_keeps[OF e] k1 r Inl True assms(1) e show ?thesis by simp
      qed
    qed
  qed
qed


lemma session_result_push_request:
  "session_result_push session entry = Inr session' \<Longrightarrow>
   map_option s_request session' = map_option s_request session"
  by (auto simp: session_result_push_def split: option.splits js.splits)

lemma session_emit_done_request:
  "session_emit_done session = Inr session' \<Longrightarrow>
   map_option s_request session' = map_option s_request session"
  by (auto simp: session_emit_done_def split: option.splits sum.splits dest: session_emit_request)

lemma receive_session_keeps:
  assumes "receive_session cl key payload = (cl', key', r)"
  shows "owner cl' = owner cl \<and> cl_busy cl' = cl_busy cl \<and> cl_requestId cl' = cl_requestId cl"
proof (cases "get_prop payload ''sessionId'' \<noteq> Undefined \<and> get_prop payload ''nodeId'' \<noteq> Undefined")
  case False
  with assms show ?thesis
    by (auto simp: receive_session_def Let_def split: js.splits)
next
  case True
  define k where "k = ''s'' @ js_toString (get_prop payload ''sessionId'')"
  define p where "p = delete_prop (delete_prop payload ''sessionId'') ''status''"
  from True have r: "receive_session cl key payload =
      (case cl_sessions cl k of
         None \<Rightarrow> (cl, Some k, Inr p)
       | Some s \<Rightarrow>
           (case session_result_push (Some s) p of
              Inl e \<Rightarrow> (cl, Some k, Inl e)
            | Inr s' \<Rightarrow> (cl\<lparr>cl_sessions := (cl_sessions cl)(k := s')\<rparr>, Some k, Inr p)))"
    unfolding k_def p_def receive_session_def Let_def
    by (cases "get_prop payload ''sessionId''") (simp_all split: option.splits sum.splits)
  show ?thesis
  proof (cases "cl_sessions cl k")
    case None
    with r assms show ?thesis by simp
  next
    case (Some s)
    show ?thesis
    proof (cases "session_result_push (Some s) p")
      case (Inl e)
      with r Some assms show ?thesis by simp
    next
      case (Inr s')
      from session_result_push_request[OF Inr] obtain t where t: "s' = Some t" "s_request t = s_request s"
        by (cases s') auto
      from owner_upd_same[OF Some t(2)] r Some Inr t(1) assms show ?thesis by auto
    qed
  qed
qed

lemma receive_emit_keeps:
  assumes "receive_emit cl cmd cmdName data payload key = (cl', evs, r)"
  shows "owner cl' = owner cl \<and> cl_busy cl' = cl_busy cl \<and> cl_requestId cl' = cl_requestId cl"
proof -
  define cl1 where "cl1 = (if endsWith cmdName ''_CFM'' then emit_to cl key (Cfm payload) else Inr cl)"
  show ?thesis
  proof (cases cl1)
    case (Inl e)
    with assms show ?thesis by (simp add: receive_emit_def Let_def cl1_def[symmetric])
  next
    case (Inr c1)
    then have k1: "owner c1 = owner cl \<and> cl_busy c1 = cl_busy cl \<and> cl_requestId c1 = cl_requestId cl"
      using emit_to_keeps[of cl key "Cfm payload" c1] by (auto simp: cl1_def split: if_splits)
    define cl2 where "cl2 = (if cmd = cmd_id GW_SESSION_FINISHED_NTF then emit_to c1 key Done else Inr c1)"
    show ?thesis
    proof (cases cl2)
      case (Inl e)
      with Inr assms k1 show ?thesis by (simp add: receive_emit_def Let_def cl1_def[symmetric] cl2_def[symmetric])
    next
      case c2: (Inr c2)
      then have k2: "owner c2 = owner c1 \<and> cl_busy c2 = cl_busy c1 \<and> cl_requestId c2 = cl_requestId c1"
        using emit_to_keeps[of c1 key Done c2] by (auto simp: cl2_def split: if_splits)
      from c2 Inr assms k1 k2 show ?thesis
        by (simp add: receive_emit_def Let_def cl1_def[symmetric] cl2_def[symmetric])
    qed
  qed
qed

lemma command_named_registry:
  "command_named cmds name = Some command \<Longrightarrow> (name, command) \<in> set cmds"
  by (auto simp: command_named_def dest: map_of_SomeD)

lemma receive_dispatch_keeps:
  assumes ok: "registry_ok cmds"
    and r: "receive_dispatch cmds cl buf = (cl', evs, r)"
  shows "owner cl' = owner cl \<and> cl_busy cl' = cl_busy cl \<and> cl_requestId cl' = cl_requestId cl"
proof (cases "readUInt16BE buf 2")
  case (Inl e)
  with r show ?thesis by (simp add: receive_dispatch_def)
next
  case (Inr cmd)
  show ?thesis
  proof (cases "commandNameById cmds cmd")
    case None
    with r Inr show ?thesis by (simp add: receive_dispatch_def Let_def)
  next
    case (Some cmdName)
    show ?thesis
    proof (cases "command_named cmds cmdName")
      case None
      with r Inr Some show ?thesis by (simp add: receive_dispatch_def Let_def)
    next
      case c: (Some command)
      from command_named_registry[OF c] ok
      have dec: "\<And>dec. cmd_decode command = Some dec \<Longrightarrow> keeps_request dec"
        by (auto simp: registry_ok_def)
      obtain cl1 evs2 x where d: "receive_decode cl command (subarray_to_last buf 4) = (cl1, evs2, x)"
        by (cases "receive_decode cl command (subarray_to_last buf 4)") auto
      note k1 = receive_decode_keeps[OF d dec]
      show ?thesis
      proof (cases x)
        case (Inl e)
        with r Inr Some c d k1 show ?thesis by (simp add: receive_dispatch_def Let_def)
      next
        case p: (Inr payload)
        obtain cl2 key y where s: "receive_session cl1 (map_option (\<lambda>req. num_toString (int req)) (cmd_req command)) payload = (cl2, key, y)"
          by (cases "receive_session cl1 (map_option (\<lambda>req. num_toString (int req)) (cmd_req command)) payload") auto
        note k2 = receive_session_keeps[OF s]
        show ?thesis
        proof (cases y)
          case (Inl e)
          with r Inr Some c d p s k1 k2 show ?thesis by (simp add: receive_dispatch_def Let_def)
        next
          case q: (Inr payload')
          obtain cl3 evs3 z where e: "receive_emit cl2 cmd cmdName (subarray_to_last buf 4) payload' key = (cl3, evs3, z)"
            by (cases "receive_emit cl2 cmd cmdName (subarray_to_last buf 4) payload' key") auto
          note k3 = receive_emit_keeps[OF e]
          from r Inr Some c d p s q e k1 k2 k3 show ?thesis by (simp add: receive_dispatch_def Let_def)
        qed
      qed
    qed
  qed
qed

lemma receive_keeps:
  assumes ok: "registry_ok cmds"
    and r: "receive cmds cl buf = (cl', evs, r)"
  shows "owner cl' = owner cl \<and> cl_busy cl' = cl_busy cl \<and> cl_requestId cl' = cl_requestId cl"
proof (cases "buf = [] \<or> buf ! 0 \<noteq> 0")
  case True
  with r show ?thesis by (auto simp: receive_def split: if_splits)
next
  case False
  obtain cl1 evs1 x where d: "receive_dispatch cmds cl buf = (cl1, evs1, x)"
    by (cases "receive_dispatch cmds cl buf") auto
  from receive_dispatch_keeps[OF ok d] False r d show ?thesis
    by (auto simp: receive_def Let_def)
qed


subsection \<open>The decoders of the registry keep the request of a session\<close>

lemma keeps_request_pure: "keeps_request (pure_decoder f)"
  by (simp add: keeps_request_def pure_decoder_def)

lemma systemtable_loop_request:
  "systemtable_loop data n i result session = (session', r) \<Longrightarrow>
   map_option s_request session' = map_option s_request session"
proof (induction data n i result session rule: systemtable_loop.induct)
  case (1 data nEntries i result session)
  show ?case
  proof (cases "i < nEntries")
    case False
    with "1.prems" show ?thesis by (simp add: systemtable_loop.simps[of data nEntries i])
  next
    case True
    show ?thesis
    proof (cases "systemtable_entry data i")
      case (Inl e)
      with True "1.prems" show ?thesis by (simp add: systemtable_loop.simps[of data nEntries i])
    next
      case (Inr entry)
      show ?thesis
      proof (cases "session_result_push session entry")
        case (Inl e)
        with True Inr "1.prems" show ?thesis by (simp add: systemtable_loop.simps[of data nEntries i])
      next
        case p: (Inr s2)
        from True Inr p "1.prems"
        have "systemtable_loop data nEntries (i + 1) (result @ [entry]) s2 = (session', r)"
          by (simp add: systemtable_loop.simps[of data nEntries i])
        from "1.IH"[OF True Inr p this] session_result_push_request[OF p] show ?thesis by simp
      qed
    qed
  qed
qed

lemma keeps_request_systemtable: "keeps_request GW_CS_GET_SYSTEMTABLE_DATA_NTF_decode"
  unfolding keeps_request_def
proof (intro allI impI)
  fix data session session' r
  assume a: "GW_CS_GET_SYSTEMTABLE_DATA_NTF_decode data session = (session', r)"
  show "map_option s_request session' = map_option s_request session"
  proof (cases "systemtable_loop data (case readUInt8 data 0 of Inr n \<Rightarrow> n | Inl e \<Rightarrow> 0) 0 [] session")
    case (Pair s1 x)
    note l = systemtable_loop_request[OF Pair]
    show ?thesis
    proof (cases "session_emit_done s1")
      case (Inl e)
      with a Pair l show ?thesis
        by (auto simp: GW_CS_GET_SYSTEMTABLE_DATA_NTF_decode_def split: sum.splits if_splits)
    next
      case (Inr s2)
      with a Pair l session_emit_done_request[OF Inr] show ?thesis
        by (auto simp: GW_CS_GET_SYSTEMTABLE_DATA_NTF_decode_def split: sum.splits if_splits)
    qed
  qed
qed

lemma registry_ok_commands: "registry_ok commands"
  unfolding registry_ok_def commands_def
  by (auto simp: command_defs keeps_request_pure keeps_request_systemtable)

subsection \<open>What the parts of request do to the table, the flag and the counter\<close>

lemma request_prepare_Inr:
  assumes "request_prepare cmds cl command params userInput = (cl', Inr req)"
  shows "cl_sessions cl' = cl_sessions cl \<and> cl_busy cl' = cl_busy cl
       \<and> cl_requestId cl' = cl_requestId cl + 1 \<and> r_id req = cl_requestId cl + 1"
  using assms
  by (auto simp: request_prepare_def Let_def split: option.splits if_splits sum.splits prod.splits)

lemma request_prepare_Inl:
  assumes "request_prepare cmds cl command params userInput = (cl', Inl e)"
  shows "cl_sessions cl' = cl_sessions cl \<and> cl_busy cl' = cl_busy cl
       \<and> cl_requestId cl' = cl_requestId cl"
  using assms
  by (auto simp: request_prepare_def Let_def split: option.splits if_splits sum.splits prod.splits)

lemma request_register_effect:
  "owner (request_register cl command req) = (owner cl)(sessionKey req \<mapsto> req)
   \<and> cl_busy (request_register cl command req) = cl_busy cl
   \<and> cl_requestId (request_register cl command req) = cl_requestId cl"
  by (auto simp: owner_def request_register_def VeluxSession_def)

lemma update_session_keeps:
  assumes "\<And>s. s_request (f s) = s_request s"
  shows "owner (update_session cl k f) = owner cl
       \<and> cl_busy (update_session cl k f) = cl_busy cl
       \<and> cl_requestId (update_session cl k f) = cl_requestId cl"
proof (cases "cl_sessions cl k")
  case None
  then show ?thesis by (simp add: update_session_def)
next
  case (Some s)
  from owner_upd_same[OF Some assms] Some show ?thesis by (simp add: update_session_def)
qed

lemma owner_busy [simp]: "owner (cl\<lparr>cl_busy := b\<rparr>) = owner cl"
  by (rule ext) (simp add: owner_def)

lemma request_send_effect:
  "owner (fst (request_send cl req)) = owner cl
   \<and> cl_busy (fst (request_send cl req))
   \<and> cl_requestId (fst (request_send cl req)) = cl_requestId cl"
  using update_session_keeps[of "\<lambda>s. once s ''cfm''" "cl\<lparr>cl_busy := True\<rparr>" "sessionKey req"]
  by (simp add: request_send_def Let_def once_def)

lemma owner_delete:
  "owner (cl\<lparr>cl_sessions := (cl_sessions cl)(k := None)\<rparr>) = (owner cl)(k := None)"
  by (rule ext) (simp add: owner_def)

lemma request_catch_out: "request_catch req e = (evs, out) \<Longrightarrow> out \<noteq> Pending"
  by (auto simp: request_catch_def split: if_splits)

lemma request_finish_effect:
  assumes "request_finish cl req = (cl', evs, out)"
  shows "owner cl' = (owner cl)(sessionKey req := None) \<and> cl_busy cl' = cl_busy cl
       \<and> cl_requestId cl' = cl_requestId cl \<and> out \<noteq> Pending"
  using assms owner_delete[of cl "sessionKey req"] by (auto simp: request_finish_def Let_def)

lemma request_cfm_effect:
  assumes "request_cfm cl command req a = (cl', evs, out)"
  shows "\<not> cl_busy cl' \<and> cl_requestId cl' = cl_requestId cl
       \<and> (if out = Pending then owner cl' = owner cl
           else owner cl' = (owner cl)(sessionKey req := None))"
proof (cases a)
  case (Rejected error)
  obtain evs1 out1 where c: "request_catch req error = (evs1, out1)"
    by (cases "request_catch req error") auto
  from assms Rejected c request_catch_out[OF c] owner_delete[of "cl\<lparr>cl_busy := False\<rparr>" "sessionKey req"]
  show ?thesis by (auto simp: request_cfm_def Let_def)
next
  case (Resolved payload)
  show ?thesis
  proof (cases "cmd_ntf command")
    case True
    with assms Resolved
      update_session_keeps[of "\<lambda>s. once (waitForDone s) ''done''" "cl\<lparr>cl_busy := False\<rparr>" "sessionKey req"]
    show ?thesis by (auto simp: request_cfm_def Let_def once_def waitForDone_def)
  next
    case False
    with assms Resolved request_finish_effect[of "cl\<lparr>cl_busy := False\<rparr>" req cl' evs out]
    show ?thesis by (auto simp: request_cfm_def Let_def)
  qed
qed

lemma request_done_effect:
  assumes "request_done cl req a = (cl', evs, out)"
  shows "cl_busy cl' = cl_busy cl \<and> cl_requestId cl' = cl_requestId cl \<and> out \<noteq> Pending
       \<and> (owner cl' = owner cl \<or> owner cl' = (owner cl)(sessionKey req := None))"
proof (cases a)
  case (Rejected error)
  obtain evs1 out1 where c: "request_catch req error = (evs1, out1)"
    by (cases "request_catch req error") auto
  from assms Rejected c request_catch_out[OF c] show ?thesis by (auto simp: request_done_def)
next
  case (Resolved payload)
  with assms request_finish_effect[of cl req cl' evs out] show ?thesis by (auto simp: request_done_def)
qed

subsection \<open>The log\<close>

lemma open_after_append: "open_after opn (l @ l') = open_after (open_after opn l) l'"
  by (induction opn l rule: open_after.induct) simp_all

lemma check_log_append:
  "check_log opn (l @ l') = (check_log opn l \<and> check_log (open_after opn l) l')"
  by (induction opn l rule: check_log.induct) simp_all

lemma open_after_mem:
  "(i, k) \<in> set opn \<or> (\<exists>b. Wrote i k b \<in> set l) \<Longrightarrow> \<forall>out. Completed i out \<notin> set l \<Longrightarrow>
   (i, k) \<in> set (open_after opn l)"
  by (induction opn l rule: open_after.induct) auto



subsection \<open>The invariant\<close>

lemma invI:
  assumes "\<And>i c. sys_callers s i = Some c \<Longrightarrow> r_id (c_request c) = i \<and> i \<le> cl_requestId (sys_client s)"
    and "\<And>i c. sys_callers s i = Some c \<Longrightarrow> registered c \<Longrightarrow>
           owner (sys_client s) (sessionKey (c_request c)) = Some (c_request c)"
    and "\<And>i c. sys_callers s i = Some c \<Longrightarrow> writing c \<Longrightarrow> cl_busy (sys_client s)"
    and "\<And>i j c d. sys_callers s i = Some c \<Longrightarrow> sys_callers s j = Some d \<Longrightarrow> writing c \<Longrightarrow> writing d \<Longrightarrow> i = j"
    and "\<And>i k. (i, k) \<in> set (open_after [] (sys_log s)) \<Longrightarrow>
           \<exists>c. sys_callers s i = Some c \<and> k = sessionKey (c_request c)
               \<and> (c_pc c = AwaitCfm \<or> c_pc c = AwaitDone)"
    and "check_log [] (sys_log s)"
  shows "invariant s"
  unfolding invariant_def using assms by blast

lemma inv_id:
  "invariant s \<Longrightarrow> sys_callers s i = Some c \<Longrightarrow> r_id (c_request c) = i \<and> i \<le> cl_requestId (sys_client s)"
  unfolding invariant_def by blast

lemma inv_owner:
  "invariant s \<Longrightarrow> sys_callers s i = Some c \<Longrightarrow> registered c \<Longrightarrow>
   owner (sys_client s) (sessionKey (c_request c)) = Some (c_request c)"
  unfolding invariant_def by blast

lemma inv_busy: "invariant s \<Longrightarrow> sys_callers s i = Some c \<Longrightarrow> writing c \<Longrightarrow> cl_busy (sys_client s)"
  unfolding invariant_def by blast

lemma inv_writing:
  "invariant s \<Longrightarrow> sys_callers s i = Some c \<Longrightarrow> sys_callers s j = Some d \<Longrightarrow> writing c \<Longrightarrow> writing d \<Longrightarrow> i = j"
  unfolding invariant_def by blast

lemma inv_open:
  "invariant s \<Longrightarrow> (i, k) \<in> set (open_after [] (sys_log s)) \<Longrightarrow>
   \<exists>c. sys_callers s i = Some c \<and> k = sessionKey (c_request c)
       \<and> (c_pc c = AwaitCfm \<or> c_pc c = AwaitDone)"
  unfolding invariant_def by blast

lemma inv_log: "invariant s \<Longrightarrow> check_log [] (sys_log s)"
  unfolding invariant_def by blast

lemma inv_initial: "invariant initial_system"
  by (simp add: invariant_def initial_system_def)

text \<open>Two registered calls with the same session key are the same call.\<close>

lemma inv_key:
  assumes "invariant s" "sys_callers s i = Some c" "sys_callers s j = Some d" "registered c" "registered d"
    and "sessionKey (c_request c) = sessionKey (c_request d)"
  shows "i = j"
proof -
  from inv_owner[OF assms(1,2,4)] inv_owner[OF assms(1,3,5)] assms(6)
  have "c_request c = c_request d" by (metis option.inject)
  with inv_id[OF assms(1,2)] inv_id[OF assms(1,3)] show ?thesis by metis
qed

text \<open>A step that changes the client only, and neither the table's owners nor the flag.\<close>

lemma inv_client:
  assumes i: "invariant s"
    and "sys_callers s' = sys_callers s" "sys_log s' = sys_log s"
    and "owner (sys_client s') = owner (sys_client s)"
    and "cl_busy (sys_client s') = cl_busy (sys_client s)"
    and "cl_requestId (sys_client s) \<le> cl_requestId (sys_client s')"
  shows "invariant s'"
proof (rule invI)
  fix j d assume "sys_callers s' j = Some d"
  with assms(2) inv_id[OF i, of j d] assms(6)
  show "r_id (c_request d) = j \<and> j \<le> cl_requestId (sys_client s')" by auto
next
  fix j d assume "sys_callers s' j = Some d" "registered d"
  with assms(2,4) inv_owner[OF i, of j d]
  show "owner (sys_client s') (sessionKey (c_request d)) = Some (c_request d)" by simp
next
  fix j d assume "sys_callers s' j = Some d" "writing d"
  with assms(2,5) inv_busy[OF i, of j d] show "cl_busy (sys_client s')" by simp
next
  fix j1 j2 d1 d2
  assume "sys_callers s' j1 = Some d1" "sys_callers s' j2 = Some d2" "writing d1" "writing d2"
  with assms(2) inv_writing[OF i, of j1 d1 j2 d2] show "j1 = j2" by simp
next
  fix j k assume "(j, k) \<in> set (open_after [] (sys_log s'))"
  with assms(2,3) inv_open[OF i, of j k]
  show "\<exists>c. sys_callers s' j = Some c \<and> k = sessionKey (c_request c)
           \<and> (c_pc c = AwaitCfm \<or> c_pc c = AwaitDone)" by simp
next
  from assms(3) inv_log[OF i] show "check_log [] (sys_log s')" by simp
qed

text \<open>A new call, before it has looked at the table.\<close>

lemma inv_new_call:
  assumes i: "invariant s"
    and n: "sys_callers s n = None"
    and c: "c_pc c = AtSlot" "r_id (c_request c) = n" "n \<le> cl_requestId (sys_client s)"
    and s': "sys_callers s' = (sys_callers s)(n \<mapsto> c)" "sys_log s' = sys_log s"
            "sys_client s' = sys_client s"
  shows "invariant s'"
proof (rule invI)
  fix j d assume "sys_callers s' j = Some d"
  with s' c inv_id[OF i, of j d]
  show "r_id (c_request d) = j \<and> j \<le> cl_requestId (sys_client s')" by (auto split: if_splits)
next
  fix j d assume "sys_callers s' j = Some d" "registered d"
  with s' c inv_owner[OF i, of j d]
  show "owner (sys_client s') (sessionKey (c_request d)) = Some (c_request d)"
    by (auto simp: registered_def split: if_splits)
next
  fix j d assume "sys_callers s' j = Some d" "writing d"
  with s' c inv_busy[OF i, of j d] show "cl_busy (sys_client s')"
    by (auto simp: writing_def split: if_splits)
next
  fix j1 j2 d1 d2
  assume "sys_callers s' j1 = Some d1" "sys_callers s' j2 = Some d2" "writing d1" "writing d2"
  with s' c inv_writing[OF i, of j1 d1 j2 d2] show "j1 = j2"
    by (auto simp: writing_def split: if_splits)
next
  fix j k assume "(j, k) \<in> set (open_after [] (sys_log s'))"
  with s' n inv_open[OF i, of j k]
  show "\<exists>c. sys_callers s' j = Some c \<and> k = sessionKey (c_request c)
           \<and> (c_pc c = AwaitCfm \<or> c_pc c = AwaitDone)" by auto
next
  from s' inv_log[OF i] show "check_log [] (sys_log s')" by simp
qed

text \<open>The call registers its session under a free key.\<close>

lemma inv_register:
  assumes i: "invariant s"
    and c: "sys_callers s n = Some c" "c_pc c = AtSlot"
    and f: "owner (sys_client s) (sessionKey (c_request c)) = None"
    and s': "sys_callers s' = (sys_callers s)(n \<mapsto> c\<lparr>c_pc := AtBusy\<rparr>)" "sys_log s' = sys_log s"
            "owner (sys_client s') = (owner (sys_client s))(sessionKey (c_request c) \<mapsto> c_request c)"
            "cl_busy (sys_client s') = cl_busy (sys_client s)"
            "cl_requestId (sys_client s') = cl_requestId (sys_client s)"
  shows "invariant s'"
proof (rule invI)
  fix j d assume "sys_callers s' j = Some d"
  with s' c inv_id[OF i, of j d] inv_id[OF i c(1)]
  show "r_id (c_request d) = j \<and> j \<le> cl_requestId (sys_client s')" by (auto split: if_splits)
next
  fix j d assume d: "sys_callers s' j = Some d" "registered d"
  show "owner (sys_client s') (sessionKey (c_request d)) = Some (c_request d)"
  proof (cases "j = n")
    case True
    with d s' show ?thesis by auto
  next
    case False
    with d s' have "sys_callers s j = Some d" by simp
    from inv_owner[OF i this d(2)] f s'(3) show ?thesis by auto
  qed
next
  fix j d assume "sys_callers s' j = Some d" "writing d"
  with s' c inv_busy[OF i, of j d] show "cl_busy (sys_client s')"
    by (auto simp: writing_def split: if_splits)
next
  fix j1 j2 d1 d2
  assume "sys_callers s' j1 = Some d1" "sys_callers s' j2 = Some d2" "writing d1" "writing d2"
  with s' c inv_writing[OF i, of j1 d1 j2 d2] show "j1 = j2"
    by (auto simp: writing_def split: if_splits)
next
  fix j k assume "(j, k) \<in> set (open_after [] (sys_log s'))"
  with s' c inv_open[OF i, of j k]
  show "\<exists>c. sys_callers s' j = Some c \<and> k = sessionKey (c_request c)
           \<and> (c_pc c = AwaitCfm \<or> c_pc c = AwaitDone)" by auto
next
  from s' inv_log[OF i] show "check_log [] (sys_log s')" by simp
qed

text \<open>The call finds the flag clear, sets it and writes its frame.\<close>

lemma inv_write:
  assumes i: "invariant s"
    and c: "sys_callers s n = Some c" "c_pc c = AtBusy"
    and f: "\<not> cl_busy (sys_client s)"
    and s': "sys_callers s' = (sys_callers s)(n \<mapsto> c\<lparr>c_pc := AwaitCfm\<rparr>)"
            "sys_log s' = sys_log s @ [Wrote n (sessionKey (c_request c)) b]"
            "owner (sys_client s') = owner (sys_client s)"
            "cl_busy (sys_client s')"
            "cl_requestId (sys_client s') = cl_requestId (sys_client s)"
  shows "invariant s'"
proof (rule invI)
  fix j d assume "sys_callers s' j = Some d"
  with s' c inv_id[OF i, of j d] inv_id[OF i c(1)]
  show "r_id (c_request d) = j \<and> j \<le> cl_requestId (sys_client s')" by (auto split: if_splits)
next
  fix j d assume d: "sys_callers s' j = Some d" "registered d"
  show "owner (sys_client s') (sessionKey (c_request d)) = Some (c_request d)"
  proof (cases "j = n")
    case True
    with d s' inv_owner[OF i c(1)] c(2) show ?thesis by (auto simp: registered_def)
  next
    case False
    with d s' have "sys_callers s j = Some d" by simp
    from inv_owner[OF i this d(2)] s'(3) show ?thesis by auto
  qed
next
  fix j d assume "sys_callers s' j = Some d" "writing d"
  from s'(4) show "cl_busy (sys_client s')" .
next
  fix j1 j2 d1 d2
  assume "sys_callers s' j1 = Some d1" "sys_callers s' j2 = Some d2" "writing d1" "writing d2"
  with s' f inv_busy[OF i, of j1 d1] inv_busy[OF i, of j2 d2] show "j1 = j2"
    by (auto split: if_splits)
next
  fix j k assume "(j, k) \<in> set (open_after [] (sys_log s'))"
  with s' have "(j, k) = (n, sessionKey (c_request c)) \<or> (j, k) \<in> set (open_after [] (sys_log s))"
    by (auto simp: open_after_append)
  with s' c inv_open[OF i, of j k]
  show "\<exists>c. sys_callers s' j = Some c \<and> k = sessionKey (c_request c)
           \<and> (c_pc c = AwaitCfm \<or> c_pc c = AwaitDone)" by auto
next
  have "j = n" if o: "(j, k) \<in> set (open_after [] (sys_log s))" and k: "k = sessionKey (c_request c)" for j k
  proof -
    from inv_open[OF i o] obtain d where d: "sys_callers s j = Some d" "k = sessionKey (c_request d)"
      "c_pc d = AwaitCfm \<or> c_pc d = AwaitDone" by blast
    from d(3) have "registered d" by (auto simp: registered_def)
    moreover from c(2) have "registered c" by (simp add: registered_def)
    ultimately show ?thesis using inv_key[OF i d(1) c(1)] d(2) k by simp
  qed
  with s' inv_log[OF i] show "check_log [] (sys_log s')"
    by (auto simp: check_log_append)
qed

text \<open>The call has its confirmation, clears the flag and waits for the end of the stream.\<close>

lemma inv_confirmed:
  assumes i: "invariant s"
    and c: "sys_callers s n = Some c" "c_pc c = AwaitCfm"
    and s': "sys_callers s' = (sys_callers s)(n \<mapsto> c\<lparr>c_pc := AwaitDone\<rparr>)"
            "sys_log s' = sys_log s"
            "owner (sys_client s') = owner (sys_client s)"
            "cl_requestId (sys_client s') = cl_requestId (sys_client s)"
  shows "invariant s'"
proof (rule invI)
  fix j d assume "sys_callers s' j = Some d"
  with s' c inv_id[OF i, of j d] inv_id[OF i c(1)]
  show "r_id (c_request d) = j \<and> j \<le> cl_requestId (sys_client s')" by (auto split: if_splits)
next
  fix j d assume d: "sys_callers s' j = Some d" "registered d"
  show "owner (sys_client s') (sessionKey (c_request d)) = Some (c_request d)"
  proof (cases "j = n")
    case True
    with d s' inv_owner[OF i c(1)] c(2) show ?thesis by (auto simp: registered_def)
  next
    case False
    with d s' have "sys_callers s j = Some d" by simp
    from inv_owner[OF i this d(2)] s'(3) show ?thesis by auto
  qed
next
  fix j d assume d: "sys_callers s' j = Some d" "writing d"
  with s' have "j \<noteq> n" by (auto simp: writing_def)
  with d s' have "sys_callers s j = Some d" by simp
  from inv_writing[OF i this c(1) d(2)] c(2) \<open>j \<noteq> n\<close> show "cl_busy (sys_client s')"
    by (simp add: writing_def)
next
  fix j1 j2 d1 d2
  assume "sys_callers s' j1 = Some d1" "sys_callers s' j2 = Some d2" "writing d1" "writing d2"
  with s' inv_writing[OF i, of j1 d1 j2 d2] show "j1 = j2"
    by (auto simp: writing_def split: if_splits)
next
  fix j k assume "(j, k) \<in> set (open_after [] (sys_log s'))"
  with s' c inv_open[OF i, of j k]
  show "\<exists>c. sys_callers s' j = Some c \<and> k = sessionKey (c_request c)
           \<and> (c_pc c = AwaitCfm \<or> c_pc c = AwaitDone)" by auto
next
  from s' inv_log[OF i] show "check_log [] (sys_log s')" by simp
qed

text \<open>The call completes.\<close>

lemma open_after_completed:
  "open_after opn (l @ [Completed n out]) = filter (\<lambda>(i', k). i' \<noteq> n) (open_after opn l)"
  by (simp add: open_after_append)

lemma inv_completed:
  assumes i: "invariant s"
    and c: "sys_callers s n = Some c" "c_pc c = AwaitCfm \<or> c_pc c = AwaitDone"
    and s': "sys_callers s' = (sys_callers s)(n \<mapsto> c\<lparr>c_pc := Finished out\<rparr>)"
            "sys_log s' = sys_log s @ [Completed n out]"
            "owner (sys_client s') = owner (sys_client s)
             \<or> owner (sys_client s') = (owner (sys_client s))(sessionKey (c_request c) := None)"
            "c_pc c = AwaitDone \<Longrightarrow> cl_busy (sys_client s') = cl_busy (sys_client s)"
            "cl_requestId (sys_client s') = cl_requestId (sys_client s)"
  shows "invariant s'"
proof (rule invI)
  fix j d assume "sys_callers s' j = Some d"
  with s' c inv_id[OF i, of j d] inv_id[OF i c(1)]
  show "r_id (c_request d) = j \<and> j \<le> cl_requestId (sys_client s')" by (auto split: if_splits)
next
  fix j d assume d: "sys_callers s' j = Some d" "registered d"
  with s' have n: "j \<noteq> n" by (auto simp: registered_def)
  with d s' have j: "sys_callers s j = Some d" by simp
  from c(2) have "registered c" by (auto simp: registered_def)
  from inv_key[OF i j c(1) d(2) this] n
  have "sessionKey (c_request d) \<noteq> sessionKey (c_request c)" by auto
  with inv_owner[OF i j d(2)] s'(3)
  show "owner (sys_client s') (sessionKey (c_request d)) = Some (c_request d)" by auto
next
  fix j d assume d: "sys_callers s' j = Some d" "writing d"
  with s' have n: "j \<noteq> n" by (auto simp: writing_def)
  with d s' have j: "sys_callers s j = Some d" by simp
  from inv_writing[OF i j c(1) d(2)] n have "c_pc c \<noteq> AwaitCfm" by (auto simp: writing_def)
  with c(2) s'(4) inv_busy[OF i j d(2)] show "cl_busy (sys_client s')" by auto
next
  fix j1 j2 d1 d2
  assume "sys_callers s' j1 = Some d1" "sys_callers s' j2 = Some d2" "writing d1" "writing d2"
  with s' inv_writing[OF i, of j1 d1 j2 d2] show "j1 = j2"
    by (auto simp: writing_def split: if_splits)
next
  fix j k assume "(j, k) \<in> set (open_after [] (sys_log s'))"
  with s' have "j \<noteq> n" "(j, k) \<in> set (open_after [] (sys_log s))"
    by (auto simp: open_after_completed)
  with s' inv_open[OF i, of j k]
  show "\<exists>c. sys_callers s' j = Some c \<and> k = sessionKey (c_request c)
           \<and> (c_pc c = AwaitCfm \<or> c_pc c = AwaitDone)" by auto
next
  from s' inv_log[OF i] show "check_log [] (sys_log s')"
    by (simp add: check_log_append)
qed



subsection \<open>Every step keeps the invariant\<close>

lemma owner_sessions: "cl_sessions cl' = cl_sessions cl \<Longrightarrow> owner cl' = owner cl"
  by (rule ext) (simp add: owner_def)

lemma caller_at: "c_pc c = p \<Longrightarrow> c\<lparr>c_pc := p\<rparr> = c"
  by (cases c) auto

lemma inv_advance_busy:
  assumes i: "invariant s"
    and c: "sys_callers s n = Some c" "c_pc c = AtBusy"
    and a: "advance_busy (sys_client s) (c_request c) = (cl', p, l)"
  shows "invariant (s\<lparr>sys_client := cl', sys_callers := (sys_callers s)(n \<mapsto> c\<lparr>c_pc := p\<rparr>),
                sys_log := sys_log s @ l\<rparr>)"
proof (cases "cl_busy (sys_client s)")
  case True
  with a have e: "cl' = sys_client s" "p = AtBusy" "l = []" by (auto simp: advance_busy_def)
  from c have "(sys_callers s)(n \<mapsto> c\<lparr>c_pc := AtBusy\<rparr>) = sys_callers s"
    by (simp add: caller_at map_upd_triv)
  with e show ?thesis by (intro inv_client[OF i]) simp_all
next
  case False
  with a have e: "cl' = fst (request_send (sys_client s) (c_request c))" "p = AwaitCfm"
    "l = [Wrote n (sessionKey (c_request c)) (encode (frame (r_cmd (c_request c)) (r_data (c_request c))))]"
    using inv_id[OF i c(1)] by (auto simp: advance_busy_def)
  from request_send_effect[of "sys_client s" "c_request c"] e
  show ?thesis by (intro inv_write[OF i c False]) simp_all
qed

lemma inv_advance_slot:
  assumes i: "invariant s"
    and c: "sys_callers s n = Some c" "c_pc c = AtSlot"
    and a: "advance_slot (sys_client s) (c_command c) (c_request c) = (cl', p, l)"
  shows "invariant (s\<lparr>sys_client := cl', sys_callers := (sys_callers s)(n \<mapsto> c\<lparr>c_pc := p\<rparr>),
                sys_log := sys_log s @ l\<rparr>)"
proof (cases "cl_sessions (sys_client s) (sessionKey (c_request c))")
  case (Some se)
  with a have e: "cl' = sys_client s" "p = AtSlot" "l = []" by (auto simp: advance_slot_def)
  from c have "(sys_callers s)(n \<mapsto> c\<lparr>c_pc := AtSlot\<rparr>) = sys_callers s"
    by (simp add: caller_at map_upd_triv)
  with e show ?thesis by (intro inv_client[OF i]) simp_all
next
  case None
  define c1 where "c1 = c\<lparr>c_pc := AtBusy\<rparr>"
  define s1 where "s1 = s\<lparr>sys_client := request_register (sys_client s) (c_command c) (c_request c),
                          sys_callers := (sys_callers s)(n \<mapsto> c1)\<rparr>"
  from None have f: "owner (sys_client s) (sessionKey (c_request c)) = None" by (simp add: owner_def)
  from request_register_effect[of "sys_client s" "c_command c" "c_request c"]
  have i1: "invariant s1" by (intro inv_register[OF i c f]) (simp_all add: s1_def c1_def)
  have c1: "sys_callers s1 n = Some c1" "c_pc c1 = AtBusy" by (simp_all add: s1_def c1_def)
  from None a have "advance_busy (sys_client s1) (c_request c1) = (cl', p, l)"
    by (simp add: advance_slot_def s1_def c1_def)
  from inv_advance_busy[OF i1 c1 this] show ?thesis by (simp add: s1_def c1_def)
qed

lemma step_inv:
  assumes ok: "registry_ok cmds" and i: "invariant s" and st: "step cmds s s'"
  shows "invariant s'"
  using st
proof cases
  case (call command params userInput cl req cl' p l)
  define c where "c = \<lparr>c_command = command, c_request = req, c_pc = AtSlot\<rparr>"
  define s1 where "s1 = s\<lparr>sys_client := cl\<rparr>"
  define s2 where "s2 = s1\<lparr>sys_callers := (sys_callers s1)(r_id req \<mapsto> c)\<rparr>"
  note e = request_prepare_Inr[OF call(2)]
  from e have "owner cl = owner (sys_client s)" by (intro owner_sessions) simp
  with e have i1: "invariant s1" by (intro inv_client[OF i]) (simp_all add: s1_def)
  have n: "sys_callers s1 (r_id req) = None"
  proof (cases "sys_callers s (r_id req)")
    case None
    then show ?thesis by (simp add: s1_def)
  next
    case (Some d)
    from inv_id[OF i Some] e show ?thesis by simp
  qed
  from e have i2: "invariant s2" by (intro inv_new_call[OF i1 n, of c]) (simp_all add: s2_def s1_def c_def)
  have c2: "sys_callers s2 (r_id req) = Some c" "c_pc c = AtSlot" by (simp_all add: s2_def c_def)
  from call(3) have "advance_slot (sys_client s2) (c_command c) (c_request c) = (cl', p, l)"
    by (simp add: s2_def s1_def c_def)
  from inv_advance_slot[OF i2 c2 this] call(1) show ?thesis by (simp add: s2_def s1_def c_def)
next
  case (call_throws command params userInput cl e)
  note e = request_prepare_Inl[OF call_throws(2)]
  then have "owner cl = owner (sys_client s)" by (intro owner_sessions) simp
  with e call_throws(1) show ?thesis by (intro inv_client[OF i]) simp_all
next
  case (timer_slot n c cl' p l)
  from inv_advance_slot[OF i timer_slot(2,3,4)] timer_slot(1) show ?thesis by simp
next
  case (timer_busy n c cl' p l)
  from inv_advance_busy[OF i timer_busy(2,3,4)] timer_busy(1) show ?thesis by simp
next
  case (frame buf cl' evs r)
  from receive_keeps[OF ok frame(2)] frame(1) show ?thesis
    by (intro inv_client[OF i]) simp_all
next
  case (timeout_cfm k se se')
  from owner_upd_same[OF timeout_cfm(2) session_emit_request[OF timeout_cfm(4)]] timeout_cfm(1)
  show ?thesis by (intro inv_client[OF i]) simp_all
next
  case (timeout_done k se se')
  from owner_upd_same[OF timeout_done(2) session_emit_request[OF timeout_done(4)]] timeout_done(1)
  show ?thesis by (intro inv_client[OF i]) simp_all
next
  case (resume_cfm n c se a cl' evs out)
  note e = request_cfm_effect[OF resume_cfm(6)]
  show ?thesis
  proof (cases "out = Pending")
    case True
    with e resume_cfm(1) show ?thesis
      by (intro inv_confirmed[OF i resume_cfm(2,3)]) (simp_all add: pc_after_def log_after_def)
  next
    case False
    then have "pc_after AwaitDone out = Finished out" "log_after n out = [Completed n out]"
      by (cases out; simp add: pc_after_def log_after_def)+
    with False e resume_cfm(1,3) show ?thesis
      by (intro inv_completed[OF i resume_cfm(2), of _ out]) simp_all
  qed
next
  case (resume_done n c se a cl' evs out)
  note e = request_done_effect[OF resume_done(6)]
  then have "pc_after AwaitDone out = Finished out" "log_after n out = [Completed n out]"
    by (cases out; simp add: pc_after_def log_after_def)+
  with e resume_done(1,3) show ?thesis
    by (intro inv_completed[OF i resume_done(2), of _ out]) auto
qed

lemma reachable_inv:
  assumes "registry_ok cmds" and "reachable cmds s"
  shows "invariant s"
  using assms(2)
proof (induction rule: reachable.induct)
  case init
  show ?case by (rule inv_initial)
next
  case (after s s')
  from step_inv[OF assms(1) after.IH after.hyps(2)] show ?case .
qed

lemma check_log_serial:
  assumes "check_log opn (pre @ Wrote j k b # post)" "Wrote i k b' \<in> set pre" "i \<noteq> j"
  shows "\<exists>out. Completed i out \<in> set pre"
proof (rule ccontr)
  assume "\<not> ?thesis"
  with assms(2) open_after_mem[of i k opn pre] have "(i, k) \<in> set (open_after opn pre)" by blast
  with assms(1,3) show False by (auto simp: check_log_append)
qed



subsection \<open>The log names the calls by their session keys\<close>

lemma advance_busy_log:
  "advance_busy cl req = (cl', p, l) \<Longrightarrow>
   l = [] \<or> (\<exists>b. l = [Wrote (r_id req) (sessionKey req) b])"
  by (auto simp: advance_busy_def split: if_splits)

lemma advance_slot_log:
  "advance_slot cl command req = (cl', p, l) \<Longrightarrow>
   l = [] \<or> (\<exists>b. l = [Wrote (r_id req) (sessionKey req) b])"
  by (auto simp: advance_slot_def split: if_splits dest: advance_busy_log)

lemma log_after_no_write: "Wrote j k b \<notin> set (log_after n out)"
  by (cases out) (simp_all add: log_after_def)

lemma step_log:
  assumes i: "invariant s" and st: "step cmds s s'"
  shows "(\<forall>j d. sys_callers s j = Some d \<longrightarrow>
            (\<exists>d'. sys_callers s' j = Some d' \<and> c_request d' = c_request d))
       \<and> (\<exists>l. sys_log s' = sys_log s @ l
              \<and> (\<forall>j k b. Wrote j k b \<in> set l \<longrightarrow>
                    (\<exists>d. sys_callers s' j = Some d \<and> k = sessionKey (c_request d))))"
  using st
proof cases
  case (call command params userInput cl req cl' p l)
  note e = request_prepare_Inr[OF call(2)]
  have n: "sys_callers s (r_id req) = None"
  proof (cases "sys_callers s (r_id req)")
    case (Some d)
    from inv_id[OF i Some] e show ?thesis by simp
  qed simp
  from advance_slot_log[OF call(3)] n call(1) show ?thesis by auto
next
  case (call_throws command params userInput cl e)
  then show ?thesis by simp
next
  case (timer_slot n c cl' p l)
  from advance_slot_log[OF timer_slot(4)] inv_id[OF i timer_slot(2)] timer_slot(1,2) show ?thesis by auto
next
  case (timer_busy n c cl' p l)
  from advance_busy_log[OF timer_busy(4)] inv_id[OF i timer_busy(2)] timer_busy(1,2) show ?thesis by auto
next
  case (frame buf cl' evs r)
  then show ?thesis by simp
next
  case (timeout_cfm k se se')
  then show ?thesis by simp
next
  case (timeout_done k se se')
  then show ?thesis by simp
next
  case (resume_cfm n c se a cl' evs out)
  then show ?thesis by (auto simp: log_after_no_write)
next
  case (resume_done n c se a cl' evs out)
  then show ?thesis by (auto simp: log_after_no_write)
qed

lemma reachable_log_keys:
  assumes ok: "registry_ok cmds" and r: "reachable cmds s"
  shows "Wrote j k b \<in> set (sys_log s) \<Longrightarrow>
         \<exists>d. sys_callers s j = Some d \<and> k = sessionKey (c_request d)"
  using r
proof (induction arbitrary: j k b rule: reachable.induct)
  case init
  then show ?case by (simp add: initial_system_def)
next
  case (after s s')
  from step_log[OF reachable_inv[OF ok after.hyps(1)] after.hyps(2)]
  obtain l where c: "\<And>j d. sys_callers s j = Some d \<Longrightarrow>
        \<exists>d'. sys_callers s' j = Some d' \<and> c_request d' = c_request d"
    and l: "sys_log s' = sys_log s @ l"
      "\<And>j k b. Wrote j k b \<in> set l \<Longrightarrow> \<exists>d. sys_callers s' j = Some d \<and> k = sessionKey (c_request d)"
    by blast
  from after.prems l(1) consider "Wrote j k b \<in> set (sys_log s)" | "Wrote j k b \<in> set l" by auto
  then show ?case
  proof cases
    case 1
    from after.IH[OF 1] obtain d where "sys_callers s j = Some d" "k = sessionKey (c_request d)" by blast
    with c[of j d] show ?thesis by auto
  next
    case 2
    from l(2)[OF 2] show ?thesis .
  qed
qed

text \<open>Two requests of one command, without a session id, have the same session key.\<close>

lemma sessionKey_plain:
  "get_prop (r_params req) ''sessionId'' = Undefined \<Longrightarrow> sessionKey req = num_toString (int (r_cmd req))"
  by (simp add: sessionKey_def)


subsection \<open>Two calls of GW_GET_VERSION_REQ\<close>

lemma version_frame: "encode (frame 8 None) = [0xC0, 0, 3, 0, 8, 11, 0xC0]"
  by code_simp

lemma version_key_2: "sessionKey version_request_2 = ''8''"
  by code_simp

lemma version_prepare:
  "request_prepare commands new_client GW_GET_VERSION_REQ (Obj []) False =
     (new_client\<lparr>cl_requestId := 1\<rparr>, Inr version_request)"
  by (simp add: request_prepare_def commandNameById_commands endsWith_def command_defs
      version_request_def new_client_def Let_def)

lemma version_advance:
  "advance_slot (new_client\<lparr>cl_requestId := 1\<rparr>) GW_GET_VERSION_REQ version_request =
     (version_client, AwaitCfm, [Wrote 1 ''8'' [0xC0, 0, 3, 0, 8, 11, 0xC0]])"
proof -
  have "r_id version_request = 1" "r_cmd version_request = 8" "r_data version_request = None"
    by (simp_all add: version_request_def)
  then show ?thesis
    by (simp add: advance_slot_def advance_busy_def version_key new_client_def request_register_def
        version_client_def version_frame)
qed

lemma version_receive:
  "receive commands version_client [0, 12, 0, 9, 0, 2, 0, 0, 71, 0, 6, 14, 3, 0x4B] =
     (version_client\<lparr>cl_sessions := [''8'' \<mapsto>
         (VeluxSession False version_request)\<lparr>s_result := version_payload, s_once_cfm := False,
            s_settled := Some (Resolved version_payload)\<rparr>]\<rparr>,
      [EvData [0, 12, 0, 9, 0, 2, 0, 0, 71, 0, 6, 14, 3, 0x4B],
       EvNotification 9 ''GW_GET_VERSION_CFM'' [0, 2, 0, 0, 71, 0, 6, 14, 3] version_payload
         (Some version_request)], None)"
  by (simp add: receive_def version_dispatch xor_bytes_def)

lemma reachable_two_calls: "reachable commands two_calls"
proof -
  define se where "se = (VeluxSession False version_request)\<lparr>s_result := version_payload,
      s_once_cfm := False, s_settled := Some (Resolved version_payload)\<rparr>"
  define c1 where "c1 = \<lparr>c_command = GW_GET_VERSION_REQ, c_request = version_request, c_pc = AwaitCfm\<rparr>"
  define c2 where "c2 = \<lparr>c_command = GW_GET_VERSION_REQ, c_request = version_request_2, c_pc = AtSlot\<rparr>"
  define w where "w = (\<lambda>n. Wrote n ''8'' [0xC0, 0, 3, 0, 8, 11, 0xC0 :: byte])"
  define s1 where "s1 = \<lparr>sys_client = version_client, sys_callers = [1 \<mapsto> c1], sys_log = [w 1]\<rparr>"
  define s2 where "s2 = s1\<lparr>sys_client := version_client\<lparr>cl_sessions := [''8'' \<mapsto> se]\<rparr>\<rparr>"
  define s3 where "s3 = s2\<lparr>sys_client := version_client\<lparr>cl_sessions := [''8'' \<mapsto> se], cl_requestId := 2\<rparr>,
                          sys_callers := [1 \<mapsto> c1, 2 \<mapsto> c2]\<rparr>"
  define cl4 where "cl4 = \<lparr>cl_requestId = 2, cl_sessionId = 0, cl_sessions = Map.empty, cl_busy = False\<rparr>"
  define s4 where "s4 = s3\<lparr>sys_client := cl4,
      sys_callers := (sys_callers s3)(1 \<mapsto> c1\<lparr>c_pc := pc_after AwaitDone (Return version_payload)\<rparr>),
      sys_log := sys_log s3 @ log_after 1 (Return version_payload)\<rparr>"
  define cl5 where "cl5 = \<lparr>cl_requestId = 2, cl_sessionId = 0,
        cl_sessions = [''8'' \<mapsto> once (VeluxSession False version_request_2) ''cfm''], cl_busy = True\<rparr>"
  have r1: "reachable commands s1"
  proof -
    from step.call[OF _ version_advance, of commands initial_system "Obj []" False]
    have "step commands initial_system s1"
      by (simp add: initial_system_def version_prepare s1_def c1_def w_def version_request_def)
    with reachable.init show ?thesis by (rule reachable.after)
  qed
  have r2: "reachable commands s2"
  proof -
    from step.frame[of commands s1, OF _] version_receive
    have "step commands s1 s2" by (simp add: s1_def s2_def se_def)
    with r1 show ?thesis by (rule reachable.after)
  qed
  have r3: "reachable commands s3"
  proof -
    have p: "request_prepare commands (sys_client s2) GW_GET_VERSION_REQ (Obj []) False =
        (version_client\<lparr>cl_sessions := [''8'' \<mapsto> se], cl_requestId := 2\<rparr>, Inr version_request_2)"
      by (simp add: request_prepare_def commandNameById_commands endsWith_def command_defs
          version_request_def version_request_2_def version_client_eq Let_def s2_def s1_def)
    have a: "advance_slot (version_client\<lparr>cl_sessions := [''8'' \<mapsto> se], cl_requestId := 2\<rparr>)
          GW_GET_VERSION_REQ version_request_2 =
        (version_client\<lparr>cl_sessions := [''8'' \<mapsto> se], cl_requestId := 2\<rparr>, AtSlot, [])"
      by (simp add: advance_slot_def version_key_2)
    from step.call[OF p a]
    have "step commands s2 s3"
      by (simp add: s3_def s2_def s1_def c2_def version_request_2_def)
    with r2 show ?thesis by (rule reachable.after)
  qed
  have r4: "reachable commands s4"
  proof -
    have c: "sys_callers s3 1 = Some c1" "c_pc c1 = AwaitCfm"
      by (simp_all add: s3_def c1_def)
    have t: "cl_sessions (sys_client s3) (sessionKey (c_request c1)) = Some se"
      "s_settled se = Some (Resolved version_payload)"
      by (simp_all add: s3_def c1_def version_key se_def)
    have q: "request_cfm (sys_client s3) (c_command c1) (c_request c1) (Resolved version_payload) =
        (cl4, [EvResponse version_request version_payload], Return version_payload)"
      by (simp add: request_cfm_def request_finish_def s3_def c1_def version_key se_def cl4_def
          version_client_eq command_defs Let_def)
    have "step commands s3 s4" unfolding s4_def by (rule step.resume_cfm[OF c t q])
    with r3 show ?thesis by (rule reachable.after)
  qed
  have c: "sys_callers s4 2 = Some c2" "c_pc c2 = AtSlot"
    by (simp_all add: s4_def s3_def c2_def)
  have "r_id version_request_2 = 2" "r_cmd version_request_2 = 8" "r_data version_request_2 = None"
    by (simp_all add: version_request_def version_request_2_def)
  then have a: "advance_slot (sys_client s4) (c_command c2) (c_request c2) = (cl5, AwaitCfm, [w 2])"
    by (simp add: advance_slot_def advance_busy_def version_key_2 request_register_def request_send_def
        update_session_def Let_def version_frame s4_def c2_def w_def command_defs cl4_def cl5_def)
  have e: "two_calls = s4\<lparr>sys_client := cl5, sys_callers := (sys_callers s4)(2 \<mapsto> c2\<lparr>c_pc := AwaitCfm\<rparr>),
      sys_log := sys_log s4 @ [w 2]\<rparr>"
    by (simp add: two_calls_def s4_def s3_def s2_def s1_def c1_def c2_def w_def cl5_def
        pc_after_def log_after_def fun_eq_iff)
  have "step commands s4 two_calls" unfolding e by (rule step.timer_slot[OF c a])
  with r4 show ?thesis by (rule reachable.after)
qed



text \<open>
  The writes of two calls with one session key: the first call has completed before the
  second one writes.
\<close>

lemma writes_of_one_key_serialize:
  assumes ok: "registry_ok cmds" and r: "reachable cmds s"
    and l: "sys_log s = pre @ Wrote j k b # post" "Wrote i k' b' \<in> set pre" "i \<noteq> j"
    and c: "sys_callers s i = Some c" "sys_callers s j = Some d"
    and k: "sessionKey (c_request c) = sessionKey (c_request d)"
  shows "\<exists>out. Completed i out \<in> set pre"
proof -
  from l(1,2) have "Wrote i k' b' \<in> set (sys_log s)" by simp
  from reachable_log_keys[OF ok r this] c(1) have 1: "k' = sessionKey (c_request c)" by simp
  from l(1) have "Wrote j k b \<in> set (sys_log s)" by simp
  from reachable_log_keys[OF ok r this] c(2) have 2: "k = sessionKey (c_request d)" by simp
  from inv_log[OF reachable_inv[OF ok r]] l(1) have "check_log [] (pre @ Wrote j k b # post)" by simp
  from check_log_serial[OF this _ l(3), of b'] l(2) 1 2 k show ?thesis by simp
qed

text \<open>
  Claim C5.  Two callers invoke the same request command, without a session id, while
  the client runs its calls on one thread that gives up control at the \<open>await\<close>s only.
  In every state that the client reaches, whatever the order of the calls, of the timers
  and of the frames from the gateway: if the log of the byte stream has a frame written
  by the one call before a frame written by the other call, then the first call has
  completed (it has returned or thrown) before the second frame was written; and at most
  one call holds the flag \<open>_busy\<close>, that is, has written its frame and not yet had its
  confirmation.
\<close>

theorem concurrent_requests_serialize:
  assumes "registry_ok cmds" and "reachable cmds s"
  shows "(\<forall>pre post i j k k' b b' c d.
            sys_log s = pre @ Wrote j k b # post \<and> Wrote i k' b' \<in> set pre \<and> i \<noteq> j \<and>
            sys_callers s i = Some c \<and> sys_callers s j = Some d \<and>
            r_cmd (c_request c) = r_cmd (c_request d) \<and>
            get_prop (r_params (c_request c)) ''sessionId'' = Undefined \<and>
            get_prop (r_params (c_request d)) ''sessionId'' = Undefined
            \<longrightarrow> (\<exists>out. Completed i out \<in> set pre))
       \<and> (\<forall>i j c d. sys_callers s i = Some c \<and> sys_callers s j = Some d \<and> writing c \<and> writing d
            \<longrightarrow> i = j)"
proof (intro conjI allI impI)
  fix pre post i j k k' b b' c d
  assume a: "sys_log s = pre @ Wrote j k b # post \<and> Wrote i k' b' \<in> set pre \<and> i \<noteq> j \<and>
            sys_callers s i = Some c \<and> sys_callers s j = Some d \<and>
            r_cmd (c_request c) = r_cmd (c_request d) \<and>
            get_prop (r_params (c_request c)) ''sessionId'' = Undefined \<and>
            get_prop (r_params (c_request d)) ''sessionId'' = Undefined"
  then have "sessionKey (c_request c) = sessionKey (c_request d)" by (simp add: sessionKey_plain)
  with a writes_of_one_key_serialize[OF assms, of pre j k b post i k' b' c d]
  show "\<exists>out. Completed i out \<in> set pre" by blast
next
  fix i j c d
  assume "sys_callers s i = Some c \<and> sys_callers s j = Some d \<and> writing c \<and> writing d"
  with inv_writing[OF reachable_inv[OF assms]] show "i = j" by blast
qed

theorem concurrent_requests_serialize_witness:
  "registry_ok commands \<and> reachable commands two_calls
   \<and> sys_log two_calls =
       [Wrote 1 ''8'' [0xC0, 0, 3, 0, 8, 11, 0xC0], Completed 1 (Return version_payload)]
       @ Wrote 2 ''8'' [0xC0, 0, 3, 0, 8, 11, 0xC0] # []
   \<and> (\<exists>out. Completed 1 out \<in>
          set [Wrote 1 ''8'' [0xC0, 0, 3, 0, 8, 11, 0xC0], Completed 1 (Return version_payload)])
   \<and> sys_callers two_calls 2
       = Some \<lparr>c_command = GW_GET_VERSION_REQ, c_request = version_request_2, c_pc = AwaitCfm\<rparr>
   \<and> \<not> (\<exists>c. sys_callers two_calls 1 = Some c \<and> writing c)"
proof -
  note t = concurrent_requests_serialize[OF registry_ok_commands reachable_two_calls]
  define c1 where "c1 = \<lparr>c_command = GW_GET_VERSION_REQ, c_request = version_request,
      c_pc = Finished (Return version_payload)\<rparr>"
  define c2 where "c2 = \<lparr>c_command = GW_GET_VERSION_REQ, c_request = version_request_2, c_pc = AwaitCfm\<rparr>"
  have l: "sys_log two_calls =
       [Wrote 1 ''8'' [0xC0, 0, 3, 0, 8, 11, 0xC0], Completed 1 (Return version_payload)]
       @ Wrote 2 ''8'' [0xC0, 0, 3, 0, 8, 11, 0xC0] # []"
    by (simp add: two_calls_def)
  have c: "sys_callers two_calls 1 = Some c1" "sys_callers two_calls 2 = Some c2"
    by (simp_all add: two_calls_def c1_def c2_def)
  have p: "r_cmd (c_request c1) = r_cmd (c_request c2)"
    "get_prop (r_params (c_request c1)) ''sessionId'' = Undefined"
    "get_prop (r_params (c_request c2)) ''sessionId'' = Undefined"
    by (simp_all add: c1_def c2_def version_request_def version_request_2_def get_prop_def)
  from t l c p
  have 1: "\<exists>out. Completed 1 out \<in>
          set [Wrote 1 ''8'' [0xC0, 0, 3, 0, 8, 11, 0xC0], Completed 1 (Return version_payload)]"
    by (elim conjE allE[of _ "[Wrote 1 ''8'' [0xC0, 0, 3, 0, 8, 11, 0xC0], Completed 1 (Return version_payload)]"])
       simp
  have w: "writing c2" by (simp add: writing_def c2_def)
  have 2: "\<not> (\<exists>c. sys_callers two_calls 1 = Some c \<and> writing c)"
  proof
    assume "\<exists>c. sys_callers two_calls 1 = Some c \<and> writing c"
    with c(1) have "writing c1" by simp
    with t c w have "(1::nat) = 2" by blast
    then show False by simp
  qed
  from registry_ok_commands reachable_two_calls l 1 c(2) 2 show ?thesis by (simp only: c2_def) simp
qed

end
